theory Spec2Isabelle
  imports Complex_Main "HOL-Library.AList" "HOL-Library.Multiset"
begin

section \<open>Data model of the converter\<close>

text \<open>
  The converter is a single React component; the functions embedded here are its pure
  kernels.  JavaScript strings are modelled as \<open>string\<close> (a list of character
  codes, one list element per code unit, so \<open>length\<close> is the script's
  \<^verbatim>\<open>.length\<close>); an optional property (\<^verbatim>\<open>undefined\<close> or absent) is an
  \<open>option\<close>; numbers that hold lengths and order positions are \<open>int\<close>.
\<close>

datatype DataType = Inteiro | Alfanumerico | Numerico | Data | CPF | CNPJ

datatype PaddingDirection = PadLeft | PadRight

datatype DateFormat = YYYYMMDD | DDMMYYYY

datatype OutputFormat = TXT | CSV

datatype CalculatedFieldType = CalculateStartDate | CalculateSituacaoRetorno | FormatPeriodMMAAAA

record ColumnMapping =
  originalHeader :: string
  mappedField :: "string option"
  dataType :: "DataType option"
  length_m :: "int option"
  removeMask :: bool

text \<open>
  \<^verbatim>\<open>OutputFieldConfig\<close> is a discriminated union over the flags
  \<^verbatim>\<open>isStatic\<close>/\<^verbatim>\<open>isCalculated\<close>; the three shapes are the constructors of
  \<open>FieldKind\<close>, the shared properties are the record.
\<close>

datatype FieldKind =
    Mapped string
  | Static string string
  | Calculated CalculatedFieldType string "string list" "(string \<times> string) list"

record OutputFieldConfig =
  id_f :: string
  order_f :: int
  length_f :: "int option"
  paddingChar :: "string option"
  paddingDirection :: "PaddingDirection option"
  dateFormat :: "DateFormat option"
  isStaticFromPreset :: "bool option"
  kind :: FieldKind

record OutputConfig =
  format_c :: OutputFormat
  delimiter :: "string option"
  fields_c :: "OutputFieldConfig list"

definition isStatic :: "OutputFieldConfig \<Rightarrow> bool" where
  "isStatic f = (case kind f of Static _ _ \<Rightarrow> True | _ \<Rightarrow> False)"

definition isCalculated :: "OutputFieldConfig \<Rightarrow> bool" where
  "isCalculated f = (case kind f of Calculated _ _ _ _ \<Rightarrow> True | _ \<Rightarrow> False)"

section \<open>String primitives of the script\<close>

definition isDigit :: "char \<Rightarrow> bool" where
  "isDigit c = (c \<in> set ''0123456789'')"

text \<open>\<^verbatim>\<open>s.startsWith('-')\<close>\<close>

definition startsWithMinus :: "string \<Rightarrow> bool" where
  "startsWithMinus s = (case s of [] \<Rightarrow> False | c # _ \<Rightarrow> c = CHR ''-'')"

text \<open>\<^verbatim>\<open>s.replace(c, r)\<close> with a one-character string pattern: only the first
  occurrence is replaced.\<close>

fun replaceFirst :: "char \<Rightarrow> string \<Rightarrow> string \<Rightarrow> string" where
  "replaceFirst c r [] = []"
| "replaceFirst c r (x # xs) = (if x = c then r @ xs else x # replaceFirst c r xs)"

text \<open>\<^verbatim>\<open>s.slice(start)\<close>: a negative start counts from the end, and
  \<^verbatim>\<open>slice(-0)\<close> is \<^verbatim>\<open>slice(0)\<close>, the whole string.\<close>

definition sliceFrom :: "int \<Rightarrow> string \<Rightarrow> string" where
  "sliceFrom start s =
     (if start < 0 then drop (nat (max (int (length s) + start) 0)) s
      else drop (nat start) s)"

text \<open>\<^verbatim>\<open>s.slice(0, end)\<close>: a negative end counts from the end.\<close>

definition sliceTo :: "int \<Rightarrow> string \<Rightarrow> string" where
  "sliceTo e s =
     (if e < 0 then take (nat (max (int (length s) + e) 0)) s
      else take (nat e) s)"

text \<open>\<^verbatim>\<open>s.substring(0, end)\<close>: a negative end is read as 0.\<close>

definition substring0 :: "int \<Rightarrow> string \<Rightarrow> string" where
  "substring0 e s = take (nat e) s"

text \<open>\<^verbatim>\<open>p.repeat(n)\<close>, called only with \<open>n > 0\<close>.\<close>

definition repeat :: "string \<Rightarrow> int \<Rightarrow> string" where
  "repeat p n = concat (replicate (nat n) p)"

text \<open>\<^verbatim>\<open>s.padStart(n, '0')\<close>\<close>

definition padStart0 :: "nat \<Rightarrow> string \<Rightarrow> string" where
  "padStart0 n s = replicate (n - length s) (CHR ''0'') @ s"

text \<open>The regular expressions \<^verbatim>\<open>/^-?\d+$/\<close> and \<^verbatim>\<open>/^-?\d+(\.\d+)?$/\<close>.\<close>

definition stripMinus :: "string \<Rightarrow> string" where
  "stripMinus s = (if startsWithMinus s then tl s else s)"

definition matchesInteger :: "string \<Rightarrow> bool" where
  "matchesInteger s = (let t = stripMinus s in t \<noteq> [] \<and> list_all isDigit t)"

definition matchesDecimal :: "string \<Rightarrow> bool" where
  "matchesDecimal s =
     (let t = stripMinus s; a = takeWhile isDigit t; r = dropWhile isDigit t
      in a \<noteq> [] \<and>
         (case r of [] \<Rightarrow> True
          | c # ds \<Rightarrow> c = CHR ''.'' \<and> ds \<noteq> [] \<and> list_all isDigit ds))"

section \<open>Defaults and effective data type\<close>

text \<open>\<^verbatim>\<open>columnMappings.find(m => m.mappedField === id)\<close>\<close>

definition findMapping :: "ColumnMapping list \<Rightarrow> string \<Rightarrow> ColumnMapping option" where
  "findMapping ms fid = find (\<lambda>m. mappedField m = Some fid) ms"

definition mappingDataType :: "ColumnMapping list \<Rightarrow> string \<Rightarrow> DataType option" where
  "mappingDataType ms fid = (case findMapping ms fid of None \<Rightarrow> None | Some m \<Rightarrow> dataType m)"

definition isNumericType :: "DataType option \<Rightarrow> bool" where
  "isNumericType dt = (dt = Some Inteiro \<or> dt = Some Numerico \<or> dt = Some CPF \<or> dt = Some CNPJ)"

definition getDefaultPaddingChar :: "FieldKind \<Rightarrow> ColumnMapping list \<Rightarrow> string" where
  "getDefaultPaddingChar k ms =
     (case k of
        Static _ v \<Rightarrow> (if matchesInteger v then ''0'' else '' '')
      | Calculated t _ _ _ \<Rightarrow>
          (if t = FormatPeriodMMAAAA \<or> t = CalculateStartDate then ''0'' else '' '')
      | Mapped fid \<Rightarrow> (if isNumericType (mappingDataType ms fid) then ''0'' else '' ''))"

definition getDefaultPaddingDirection :: "FieldKind \<Rightarrow> ColumnMapping list \<Rightarrow> PaddingDirection" where
  "getDefaultPaddingDirection k ms =
     (case k of
        Static _ v \<Rightarrow> (if matchesInteger v then PadLeft else PadRight)
      | Calculated t _ _ _ \<Rightarrow>
          (if t = FormatPeriodMMAAAA \<or> t = CalculateStartDate then PadLeft else PadRight)
      | Mapped fid \<Rightarrow> (if isNumericType (mappingDataType ms fid) then PadLeft else PadRight))"

text \<open>\<^verbatim>\<open>getOutputFieldDataType\<close>.  Its last calculated branch (\<^verbatim>\<open>'Calculado'\<close>)
  is only reached for a calculation type outside \<^verbatim>\<open>CalculatedFieldType\<close>, which the
  datatype excludes.\<close>

definition getOutputFieldDataType :: "ColumnMapping list \<Rightarrow> OutputFieldConfig \<Rightarrow> DataType option" where
  "getOutputFieldDataType ms f =
     (case kind f of
        Static _ _ \<Rightarrow> None
      | Calculated t _ _ _ \<Rightarrow>
          (case t of CalculateStartDate \<Rightarrow> Some Data
                   | FormatPeriodMMAAAA \<Rightarrow> Some Data
                   | CalculateSituacaoRetorno \<Rightarrow> Some Alfanumerico)
      | Mapped fid \<Rightarrow> mappingDataType ms fid)"

section \<open>Fixed-width formatter (the \<^verbatim>\<open>txt\<close> branch of \<^verbatim>\<open>convertFile\<close>)\<close>

definition effectiveDataType :: "ColumnMapping list \<Rightarrow> OutputFieldConfig \<Rightarrow> DataType option" where
  "effectiveDataType ms f =
     (case kind f of
        Static _ v \<Rightarrow>
          (if matchesDecimal (replaceFirst (CHR '','') ''.'' v) then Some Numerico
           else if matchesInteger v then Some Inteiro else Some Alfanumerico)
      | _ \<Rightarrow> getOutputFieldDataType ms f)"

text \<open>The test that selects right-aligned truncation (keep the trailing characters).\<close>

definition keepsTrailing :: "PaddingDirection \<Rightarrow> DataType option \<Rightarrow> bool" where
  "keepsTrailing padDir dt =
     (padDir = PadLeft \<and>
      (dt = Some Numerico \<or> dt = Some Inteiro \<or> dt = Some CPF \<or> dt = Some CNPJ \<or> dt = Some Data))"

text \<open>\<^verbatim>\<open>outputField.paddingChar || getDefaultPaddingChar(...)\<close>: the empty string is
  falsy, so the pad string in use is never empty.\<close>

definition padCharOf :: "ColumnMapping list \<Rightarrow> OutputFieldConfig \<Rightarrow> string" where
  "padCharOf ms f =
     (case paddingChar f of
        None \<Rightarrow> getDefaultPaddingChar (kind f) ms
      | Some p \<Rightarrow> (if p = [] then getDefaultPaddingChar (kind f) ms else p))"

definition padDirOf :: "ColumnMapping list \<Rightarrow> OutputFieldConfig \<Rightarrow> PaddingDirection" where
  "padDirOf ms f =
     (case paddingDirection f of
        None \<Rightarrow> getDefaultPaddingDirection (kind f) ms
      | Some d \<Rightarrow> d)"

text \<open>Padding of the sign-free core up to the room \<open>room\<close> left for it.\<close>

definition padCore :: "string \<Rightarrow> PaddingDirection \<Rightarrow> int \<Rightarrow> string \<Rightarrow> string" where
  "padCore padChar padDir room v =
     (let corePadLen = room - int (length v)
      in if corePadLen > 0
         then (if padDir = PadLeft then repeat padChar corePadLen @ v
               else v @ repeat padChar corePadLen)
         else v)"

text \<open>Re-insertion of the decimal point before the last two digits.\<close>

definition reinsertPoint :: "string \<Rightarrow> string" where
  "reinsertPoint p =
     (if length p > 2 then sliceTo (-2) p @ ''.'' @ sliceFrom (-2) p
      else if length p > 0 then ''0.'' @ padStart0 2 p
      else ''0.00'')"

text \<open>The body of \<^verbatim>\<open>if (len > 0) { ... } else { processedValue = '' }\<close>, with the
  field's length, pad string, pad direction and effective type already read.\<close>

definition formatFixed ::
  "int \<Rightarrow> string \<Rightarrow> PaddingDirection \<Rightarrow> DataType option \<Rightarrow> string \<Rightarrow> string" where
  "formatFixed len padChar padDir dt processedValue =
     (if len > 0 then
        (let isNegative = startsWithMinus processedValue;
             coreValue = (if isNegative then tl processedValue else processedValue);
             sign = (if isNegative then ''-'' else '''');
             room = (if isNegative then len - 1 else len);
             check0 = (if dt = Some Numerico \<and> padChar = ''0''
                       then replaceFirst (CHR ''.'') '''' coreValue else coreValue);
             check1 = (if int (length check0) > room
                       then (if keepsTrailing padDir dt then sliceFrom (- room) check0
                             else substring0 room check0)
                       else check0);
             core' = (if dt = Some Numerico \<and> padChar = ''0'' \<and> CHR ''.'' \<in> set coreValue
                      then reinsertPoint (padCore padChar padDir room check1)
                      else padCore padChar padDir room check1);
             padded = sign @ core'
         in if int (length padded) > len
            then (if keepsTrailing padDir dt then sliceFrom (- len) padded
                  else sliceTo len padded)
            else padded)
      else '''')"

definition formatTxtField :: "ColumnMapping list \<Rightarrow> OutputFieldConfig \<Rightarrow> string \<Rightarrow> string" where
  "formatTxtField ms f v =
     formatFixed (case length_f f of None \<Rightarrow> 0 | Some n \<Rightarrow> n)
       (padCharOf ms f) (padDirOf ms f) (effectiveDataType ms f) v"

section \<open>Delimited output (the \<^verbatim>\<open>csv\<close> branch of \<^verbatim>\<open>convertFile\<close>)\<close>

text \<open>\<^verbatim>\<open>s.startsWith(d)\<close> and \<^verbatim>\<open>s.includes(d)\<close>\<close>

fun startsWith :: "string \<Rightarrow> string \<Rightarrow> bool" where
  "startsWith s [] = True"
| "startsWith [] (d # ds) = False"
| "startsWith (c # cs) (d # ds) = (c = d \<and> startsWith cs ds)"

fun includes_s :: "string \<Rightarrow> string \<Rightarrow> bool" where
  "includes_s [] d = (d = [])"
| "includes_s (c # cs) d = (startsWith (c # cs) d \<or> includes_s cs d)"

definition dquote :: char where
  "dquote = CHR 0x22"

definition newline :: char where
  "newline = CHR 0x0A"

text \<open>\<^verbatim>\<open>s.replace(/"/g, '""')\<close>\<close>

fun doubleQuotes :: "string \<Rightarrow> string" where
  "doubleQuotes [] = []"
| "doubleQuotes (c # cs) = (if c = dquote then dquote # dquote # doubleQuotes cs
                            else c # doubleQuotes cs)"

text \<open>The text of a cell before quoting: a \<^verbatim>\<open>Numerico\<close> field shows a decimal comma.\<close>

definition csvValue :: "DataType option \<Rightarrow> string \<Rightarrow> string" where
  "csvValue dt v = (if dt = Some Numerico then replaceFirst (CHR ''.'') '','' v else v)"

definition needsQuotes :: "string \<Rightarrow> string \<Rightarrow> bool" where
  "needsQuotes delim w = (includes_s w delim \<or> includes_s w [dquote] \<or> includes_s w [newline])"

definition csvCell :: "string \<Rightarrow> DataType option \<Rightarrow> string \<Rightarrow> string" where
  "csvCell delim dt v =
     (let w = csvValue dt v
      in if needsQuotes delim w then [dquote] @ doubleQuotes w @ [dquote] else w)"

section \<open>Output schema operations\<close>

text \<open>\<^verbatim>\<open>fields.sort((a, b) => a.order - b.order)\<close> is a stable sort, as \<open>sort_key\<close> is;
  \<^verbatim>\<open>fields.map((f, idx) => ({ ...f, order: idx }))\<close> renumbers.\<close>

definition sortByOrder :: "OutputFieldConfig list \<Rightarrow> OutputFieldConfig list" where
  "sortByOrder fs = sort_key order_f fs"

definition renumber :: "OutputFieldConfig list \<Rightarrow> OutputFieldConfig list" where
  "renumber fs = map (\<lambda>(idx, f). f\<lparr>order_f := int idx\<rparr>) (enumerate 0 fs)"

definition removeOutputField :: "string \<Rightarrow> OutputConfig \<Rightarrow> OutputConfig" where
  "removeOutputField idToRemove prev =
     (let newFields = filter (\<lambda>f. id_f f \<noteq> idToRemove) (fields_c prev);
          reorderedFields = renumber (sortByOrder newFields)
      in prev\<lparr>fields_c := reorderedFields\<rparr>)"

datatype Direction = Up | Down

fun findIndex :: "('a \<Rightarrow> bool) \<Rightarrow> 'a list \<Rightarrow> nat option" where
  "findIndex P [] = None"
| "findIndex P (x # xs) = (if P x then Some 0 else map_option Suc (findIndex P xs))"

definition moveField :: "string \<Rightarrow> Direction \<Rightarrow> OutputConfig \<Rightarrow> OutputConfig" where
  "moveField fid direction prev =
     (let fs = fields_c prev
      in case findIndex (\<lambda>f. id_f f = fid) fs of
           None \<Rightarrow> prev
         | Some currentIndex \<Rightarrow>
             (let targetIndex = (if direction = Up then int currentIndex - 1
                                 else int currentIndex + 1)
              in if targetIndex < 0 \<or> targetIndex \<ge> int (length fs) then prev
                 else
                   (let t = nat targetIndex;
                        currentOrder = order_f (fs ! currentIndex);
                        fs1 = fs[currentIndex := (fs ! currentIndex)\<lparr>order_f := order_f (fs ! t)\<rparr>];
                        fs2 = fs1[t := (fs1 ! t)\<lparr>order_f := currentOrder\<rparr>];
                        renumberedFields = renumber (sortByOrder fs2)
                    in prev\<lparr>fields_c := renumberedFields\<rparr>)))"

section \<open>Schema reconciliation (the \<^verbatim>\<open>useEffect\<close> on the column mappings)\<close>

text \<open>\<^verbatim>\<open>a ?? b\<close> with a defined right-hand side.\<close>

definition orElse :: "'a option \<Rightarrow> 'a \<Rightarrow> 'a" where
  "orElse a b = (case a of None \<Rightarrow> b | Some x \<Rightarrow> x)"

text \<open>\<^verbatim>\<open>columnMappings.some(cm => cm.mappedField === id)\<close>\<close>

definition hasMapping :: "ColumnMapping list \<Rightarrow> string \<Rightarrow> bool" where
  "hasMapping ms fid = list_ex (\<lambda>cm. mappedField cm = Some fid) ms"

text \<open>\<^verbatim>\<open>dataType === 'Alfanumerico' ? (m.length ?? 10) : 10\<close>\<close>

definition mappedDefaultLength :: "DataType option \<Rightarrow> int option \<Rightarrow> int" where
  "mappedDefaultLength dt mlen = (if dt = Some Alfanumerico then orElse mlen 10 else 10)"

text \<open>The descriptor built for the \<open>index\<close>-th mapping that has a field id \<open>mf\<close>.
  \<open>stamp index\<close> is the text of \<^verbatim>\<open>Date.now()\<close> read while that mapping is visited.\<close>

definition baseField ::
  "(nat \<Rightarrow> string) \<Rightarrow> ColumnMapping list \<Rightarrow> OutputFormat \<Rightarrow> OutputFieldConfig list \<Rightarrow>
   nat \<Rightarrow> string \<Rightarrow> ColumnMapping \<Rightarrow> OutputFieldConfig" where
  "baseField stamp ms fmt prev index mf m =
     (let dt = dataType m;
          existingField = find (\<lambda>f. kind f = Mapped mf) prev
      in \<lparr>id_f = (case existingField of Some e \<Rightarrow> id_f e
                   | None \<Rightarrow> ''mapped-'' @ mf @ ''-'' @ stamp index),
          order_f = (case existingField of Some e \<Rightarrow> order_f e
                     | None \<Rightarrow> int (length prev) + int index),
          length_f = (if fmt = TXT
                      then Some (orElse (Option.bind existingField length_f)
                                   (mappedDefaultLength dt (length_m m)))
                      else None),
          paddingChar = (if fmt = TXT
                         then Some (orElse (Option.bind existingField paddingChar)
                                      (getDefaultPaddingChar (Mapped mf) ms))
                         else None),
          paddingDirection = (if fmt = TXT
                              then Some (orElse (Option.bind existingField paddingDirection)
                                           (getDefaultPaddingDirection (Mapped mf) ms))
                              else None),
          dateFormat = (if dt = Some Data
                        then Some (orElse (Option.bind existingField dateFormat) DDMMYYYY)
                        else None),
          isStaticFromPreset = Some (orElse (Option.bind existingField isStaticFromPreset) False),
          kind = Mapped mf\<rparr>)"

definition potentialMappedFields ::
  "(nat \<Rightarrow> string) \<Rightarrow> ColumnMapping list \<Rightarrow> OutputFormat \<Rightarrow> OutputFieldConfig list \<Rightarrow>
   OutputFieldConfig list" where
  "potentialMappedFields stamp ms fmt prev =
     map (\<lambda>(index, mf, m). baseField stamp ms fmt prev index mf m)
       (enumerate 0 (List.map_filter (\<lambda>m. map_option (\<lambda>mf. (mf, m)) (mappedField m)) ms))"

text \<open>The branch that refreshes a descriptor already held by \<^verbatim>\<open>uniqueMappedFieldsMap\<close>.\<close>

definition refreshExisting ::
  "ColumnMapping list \<Rightarrow> OutputFormat \<Rightarrow> string \<Rightarrow> OutputFieldConfig \<Rightarrow> OutputFieldConfig" where
  "refreshExisting ms fmt mf existing =
     (let currentMapping = findMapping ms mf;
          currentDataType = (case currentMapping of None \<Rightarrow> None | Some cm \<Rightarrow> dataType cm)
      in existing
          \<lparr>length_f :=
             (if fmt = TXT
              then Some (orElse (length_f existing)
                           (mappedDefaultLength currentDataType (Option.bind currentMapping length_m)))
              else None),
           paddingChar :=
             (if fmt = TXT
              then Some (orElse (paddingChar existing) (getDefaultPaddingChar (kind existing) ms))
              else None),
           paddingDirection :=
             (if fmt = TXT
              then Some (orElse (paddingDirection existing)
                           (getDefaultPaddingDirection (kind existing) ms))
              else None),
           dateFormat :=
             (if currentDataType = Some Data then Some (orElse (dateFormat existing) DDMMYYYY)
              else None)\<rparr>)"

text \<open>\<^verbatim>\<open>uniqueMappedFieldsMap\<close> is a \<^verbatim>\<open>Map\<close>: an association list in insertion
  order, where setting a key that is present replaces its value in place.  A field id that
  is the empty string is falsy and is skipped.\<close>

definition seedUnique :: "OutputFieldConfig \<Rightarrow> (string \<times> OutputFieldConfig) list \<Rightarrow>
    (string \<times> OutputFieldConfig) list" where
  "seedUnique f al =
     (case kind f of
        Mapped mf \<Rightarrow> (if mf \<noteq> [] then AList.update mf f al else al)
      | _ \<Rightarrow> al)"

definition mergePotential :: "ColumnMapping list \<Rightarrow> OutputFormat \<Rightarrow> OutputFieldConfig \<Rightarrow>
    (string \<times> OutputFieldConfig) list \<Rightarrow> (string \<times> OutputFieldConfig) list" where
  "mergePotential ms fmt f al =
     (case kind f of
        Mapped mf \<Rightarrow>
          (if mf = [] then al
           else (case map_of al mf of
                   None \<Rightarrow> AList.update mf f al
                 | Some existing \<Rightarrow> AList.update mf (refreshExisting ms fmt mf existing) al))
      | _ \<Rightarrow> al)"

definition uniqueMappedFields ::
  "(nat \<Rightarrow> string) \<Rightarrow> ColumnMapping list \<Rightarrow> OutputFormat \<Rightarrow> OutputFieldConfig list \<Rightarrow>
   OutputFieldConfig list" where
  "uniqueMappedFields stamp ms fmt prev =
     map snd (fold (mergePotential ms fmt) (potentialMappedFields stamp ms fmt prev)
                (fold seedUnique prev []))"

text \<open>\<^verbatim>\<open>existingFieldsMap.get(id)\<close>: the map is built from all fields in order, so a
  later field with the same id wins.\<close>

definition originalFieldOf :: "OutputFieldConfig list \<Rightarrow> string \<Rightarrow> OutputFieldConfig option" where
  "originalFieldOf prev i = find (\<lambda>g. id_f g = i) (rev prev)"

definition updateStatic ::
  "ColumnMapping list \<Rightarrow> OutputFormat \<Rightarrow> OutputFieldConfig list \<Rightarrow> OutputFieldConfig \<Rightarrow>
   OutputFieldConfig" where
  "updateStatic ms fmt prev f =
     (let originalField = originalFieldOf prev (id_f f)
      in if fmt = TXT
         then f\<lparr>length_f :=
                  Some (orElse (length_f f)
                         (orElse (Option.bind originalField length_f)
                            (case kind f of Static _ v \<Rightarrow> int (length v) | _ \<Rightarrow> 10))),
                paddingChar :=
                  Some (orElse (paddingChar f)
                         (orElse (Option.bind originalField paddingChar)
                            (getDefaultPaddingChar (kind f) ms))),
                paddingDirection :=
                  Some (orElse (paddingDirection f)
                         (orElse (Option.bind originalField paddingDirection)
                            (getDefaultPaddingDirection (kind f) ms)))\<rparr>
         else f\<lparr>length_f := None, paddingChar := None, paddingDirection := None\<rparr>)"

definition calculatedDefaultLength :: "FieldKind \<Rightarrow> int" where
  "calculatedDefaultLength k =
     (case k of
        Calculated t _ _ _ \<Rightarrow>
          (if t = CalculateStartDate then 8
           else if t = FormatPeriodMMAAAA then 6
           else if t = CalculateSituacaoRetorno then 1 else 10)
      | _ \<Rightarrow> 10)"

definition isDateFieldCalc :: "FieldKind \<Rightarrow> bool" where
  "isDateFieldCalc k =
     (case k of Calculated t _ _ _ \<Rightarrow> t = CalculateStartDate \<or> t = FormatPeriodMMAAAA
      | _ \<Rightarrow> False)"

text \<open>For a calculation that is not date-like the script deletes \<^verbatim>\<open>dateFormat\<close> only
  when the type is neither \<^verbatim>\<open>FormatPeriodMMAAAA\<close> nor
  \<^verbatim>\<open>CalculateSituacaoRetorno\<close>; within \<open>CalculatedFieldType\<close> no such type is
  left, so the property is kept.\<close>

definition updateCalculated ::
  "ColumnMapping list \<Rightarrow> OutputFormat \<Rightarrow> OutputFieldConfig list \<Rightarrow> OutputFieldConfig \<Rightarrow>
   OutputFieldConfig" where
  "updateCalculated ms fmt prev f =
     (let originalField = originalFieldOf prev (id_f f);
          f1 = (if fmt = TXT
                then f\<lparr>length_f :=
                         Some (orElse (length_f f)
                                (orElse (Option.bind originalField length_f)
                                   (calculatedDefaultLength (kind f)))),
                       paddingChar :=
                         Some (orElse (paddingChar f)
                                (orElse (Option.bind originalField paddingChar)
                                   (getDefaultPaddingChar (kind f) ms))),
                       paddingDirection :=
                         Some (orElse (paddingDirection f)
                                (orElse (Option.bind originalField paddingDirection)
                                   (getDefaultPaddingDirection (kind f) ms)))\<rparr>
                else f\<lparr>length_f := None, paddingChar := None, paddingDirection := None\<rparr>)
      in if isDateFieldCalc (kind f)
         then f1\<lparr>dateFormat :=
                   Some (orElse (dateFormat f)
                          (orElse (Option.bind originalField dateFormat) DDMMYYYY))\<rparr>
         else f1)"

text \<open>The two filters over \<^verbatim>\<open>combinedFields\<close>.\<close>

definition keepMapped :: "ColumnMapping list \<Rightarrow> OutputFieldConfig \<Rightarrow> bool" where
  "keepMapped ms f =
     (isStatic f \<or> isCalculated f \<or>
      (case kind f of Mapped mf \<Rightarrow> hasMapping ms mf | _ \<Rightarrow> False))"

definition keepCalculated :: "ColumnMapping list \<Rightarrow> OutputFieldConfig \<Rightarrow> bool" where
  "keepCalculated ms f =
     (case kind f of
        Calculated t _ req _ \<Rightarrow> list_all (hasMapping ms) req \<or> t = FormatPeriodMMAAAA
      | _ \<Rightarrow> True)"

definition reconcileFields ::
  "(nat \<Rightarrow> string) \<Rightarrow> ColumnMapping list \<Rightarrow> OutputFormat \<Rightarrow> OutputFieldConfig list \<Rightarrow>
   OutputFieldConfig list" where
  "reconcileFields stamp ms fmt prev =
     (let updatedStaticFields = map (updateStatic ms fmt prev) (filter isStatic prev);
          updatedCalculatedFields = map (updateCalculated ms fmt prev) (filter isCalculated prev);
          combinedFields = updatedStaticFields @ updatedCalculatedFields
                           @ uniqueMappedFields stamp ms fmt prev;
          combinedFields1 = filter (keepMapped ms) combinedFields;
          combinedFields2 = filter (keepCalculated ms) combinedFields1
      in renumber (sortByOrder combinedFields2))"

text \<open>The state updater.  Whether it returns the previous object or a new one
  (\<^verbatim>\<open>hasChanged\<close>), the field list it leaves is the reconciled one: the two are compared
  by their JSON text.\<close>

definition reconcile :: "(nat \<Rightarrow> string) \<Rightarrow> ColumnMapping list \<Rightarrow> OutputConfig \<Rightarrow> OutputConfig" where
  "reconcile stamp ms prevConfig =
     prevConfig\<lparr>fields_c := reconcileFields stamp ms (format_c prevConfig) (fields_c prevConfig)\<rparr>"

text \<open>The effect with its two early returns.\<close>

definition reconcileEffect ::
  "(nat \<Rightarrow> string) \<Rightarrow> ColumnMapping list \<Rightarrow> nat \<Rightarrow> string \<Rightarrow> OutputConfig \<Rightarrow> OutputConfig" where
  "reconcileEffect stamp ms fileDataLength selectedLayoutPresetId outputConfig =
     (if ms = [] \<and> fileDataLength = 0
         \<and> list_all (\<lambda>f. \<not> isStatic f \<and> \<not> isCalculated f) (fields_c outputConfig)
         \<and> fields_c outputConfig = []
      then outputConfig
      else if selectedLayoutPresetId \<noteq> ''custom'' \<and> format_c outputConfig = TXT
      then outputConfig
      else reconcile stamp ms outputConfig)"

text \<open>The invariant of the field list: \<^verbatim>\<open>order\<close> is the position.\<close>

definition denseOrder :: "OutputFieldConfig list \<Rightarrow> bool" where
  "denseOrder fs = (map order_f fs = map int [0..<length fs])"

section \<open>Numbers of the script\<close>

text \<open>
  A JavaScript Number is kept with its exact value: a finite double is
  \<open>\<plusminus> m \<sqdot> 2\<^sup>e\<close> with \<open>0 \<le> m < 2\<^sup>5\<^sup>3\<close>, written \<open>Finite negative m e\<close>
  (\<open>m = 0\<close> for the two zeros).  A decimal text denotes a rational \<open>p / q\<close>; the
  Number it is read as is the double nearest to it, ties going to the even mantissa, and
  \<open>Infinity\<close> from \<open>2\<^sup>1\<^sup>0\<^sup>2\<^sup>4\<close> on.
\<close>

datatype jsnum = NaN | Infinity bool | Finite bool int int

function bitLength :: "int \<Rightarrow> nat" where
  "bitLength n = (if n \<le> 0 then 0 else Suc (bitLength (n div 2)))"
  by pat_completeness auto
termination
  by (relation "measure nat") auto

declare bitLength.simps [simp del]

definition roundHalfEven :: "int \<Rightarrow> int \<Rightarrow> int" where
  "roundHalfEven a b =
     (let q = a div b; r = a mod b
      in if 2 * r < b then q
         else if 2 * r > b then q + 1
         else if even q then q else q + 1)"

text \<open>\<open>p / (q \<sqdot> 2\<^sup>e)\<close> rounded to an integer, and the test \<open>p / q \<ge> 2\<^sup>b\<close>.\<close>

definition scaled :: "int \<Rightarrow> int \<Rightarrow> int \<Rightarrow> int" where
  "scaled p q e =
     (if e \<ge> 0 then roundHalfEven p (q * 2 ^ nat e)
      else roundHalfEven (p * 2 ^ nat (- e)) q)"

definition atLeastPow2 :: "int \<Rightarrow> int \<Rightarrow> int \<Rightarrow> bool" where
  "atLeastPow2 p q b =
     (if b \<ge> 0 then q * 2 ^ nat b \<le> p else q \<le> p * 2 ^ nat (- b))"

definition toDouble :: "bool \<Rightarrow> int \<Rightarrow> int \<Rightarrow> jsnum" where
  "toDouble neg p q =
     (if p = 0 then Finite neg 0 0
      else
        (let b = int (bitLength p) - int (bitLength q);
             t = (if atLeastPow2 p q b then b else b - 1);
             e = max (t - 52) (- 1074);
             m = scaled p q e;
             m' = (if m = 2 ^ 53 then 2 ^ 52 else m);
             e' = (if m = 2 ^ 53 then e + 1 else e)
         in if e' > 971 then Infinity neg
            else if m' = 0 then Finite neg 0 0
            else Finite neg m' e'))"

definition digitValue :: "char \<Rightarrow> int" where
  "digitValue c = of_char c - 48"

definition digitsToInt :: "string \<Rightarrow> int" where
  "digitsToInt ds = foldl (\<lambda>a c. 10 * a + digitValue c) 0 ds"

text \<open>The Number for \<open>\<plusminus> n \<sqdot> 10\<^sup>x\<close>.\<close>

definition decimalNumber :: "bool \<Rightarrow> int \<Rightarrow> int \<Rightarrow> jsnum" where
  "decimalNumber neg n x =
     (if x \<ge> 0 then toDouble neg (n * 10 ^ nat x) 1 else toDouble neg n (10 ^ nat (- x)))"

text \<open>White space among the 8-bit characters: TAB, LF, VT, FF, CR, SP and NBSP.\<close>

definition isWhiteSpace :: "char \<Rightarrow> bool" where
  "isWhiteSpace c = (of_char c \<in> {9, 10, 11, 12, 13, 32, 160 :: int})"

text \<open>A leading sign, as \<^verbatim>\<open>parseFloat\<close> and the exponent part read it.\<close>

definition signOf :: "string \<Rightarrow> bool \<times> string" where
  "signOf s =
     (case s of
        [] \<Rightarrow> (False, [])
      | c # r \<Rightarrow> if c = CHR ''-'' then (True, r)
                 else if c = CHR ''+'' then (False, r) else (False, s))"

definition exponentOf :: "string \<Rightarrow> int" where
  "exponentOf s =
     (case s of
        [] \<Rightarrow> 0
      | c # r \<Rightarrow>
          if c = CHR ''e'' \<or> c = CHR ''E''
          then (let (eneg, r') = signOf r; ds = takeWhile isDigit r'
                in if ds = [] then 0
                   else if eneg then - digitsToInt ds else digitsToInt ds)
          else 0)"

text \<open>
  \<^verbatim>\<open>parseFloat(s)\<close>: leading white space is skipped, then the longest prefix that is a
  decimal literal (sign, \<^verbatim>\<open>Infinity\<close> or digits with an optional fraction and
  exponent) is read; with no such prefix the result is \<^verbatim>\<open>NaN\<close>.
\<close>

definition parseFloat :: "string \<Rightarrow> jsnum" where
  "parseFloat s =
     (let (neg, u) = signOf (dropWhile isWhiteSpace s)
      in if startsWith u ''Infinity'' then Infinity neg
         else
           (let ip = takeWhile isDigit u;
                r1 = dropWhile isDigit u;
                fp = (case r1 of [] \<Rightarrow> []
                      | c # r \<Rightarrow> if c = CHR ''.'' then takeWhile isDigit r else []);
                r2 = (case r1 of [] \<Rightarrow> []
                      | c # r \<Rightarrow> if c = CHR ''.'' then dropWhile isDigit r else r1)
            in if ip = [] \<and> fp = [] then NaN
               else decimalNumber neg (digitsToInt (ip @ fp))
                      (exponentOf r2 - int (length fp))))"

text \<open>\<^verbatim>\<open>x > 0\<close> on Numbers.\<close>

definition jsPositive :: "jsnum \<Rightarrow> bool" where
  "jsPositive x =
     (case x of NaN \<Rightarrow> False | Infinity neg \<Rightarrow> \<not> neg | Finite neg m e \<Rightarrow> \<not> neg \<and> m > 0)"

subsection \<open>\<^verbatim>\<open>toFixed(2)\<close>\<close>

definition digitChar :: "int \<Rightarrow> char" where
  "digitChar d = ''0123456789'' ! nat d"

function showNat :: "int \<Rightarrow> string" where
  "showNat n = (if n < 10 then [digitChar n] else showNat (n div 10) @ [digitChar (n mod 10)])"
  by pat_completeness auto
termination
  by (relation "measure nat") auto

declare showNat.simps [simp del]

text \<open>\<open>m \<sqdot> 2\<^sup>e < 10\<^sup>2\<^sup>1\<close>, and the integer nearest to \<open>100 \<sqdot> m \<sqdot> 2\<^sup>e\<close>
  (the larger one when two are equally near).\<close>

definition below1e21 :: "int \<Rightarrow> int \<Rightarrow> bool" where
  "below1e21 m e =
     (if e \<ge> 0 then m * 2 ^ nat e < 10 ^ 21 else m < 10 ^ 21 * 2 ^ nat (- e))"

definition hundredths :: "int \<Rightarrow> int \<Rightarrow> int" where
  "hundredths m e =
     (if e \<ge> 0 then 100 * m * 2 ^ nat e
      else (200 * m + 2 ^ nat (- e)) div (2 * 2 ^ nat (- e)))"

text \<open>
  \<^verbatim>\<open>String(x)\<close> for a finite \<open>x \<ge> 10\<^sup>2\<^sup>1\<close>, an integer \<open>v\<close>: the shortest digit
  string \<open>s\<close> of \<open>k\<close> digits with \<open>s \<sqdot> 10\<^sup>n\<^sup>-\<^sup>k\<close> read back as \<open>x\<close>, the one
  nearest to \<open>x\<close> when several have that length, in exponent notation.
\<close>

definition candidates :: "int \<Rightarrow> int \<Rightarrow> nat \<Rightarrow> nat \<Rightarrow> (int \<times> nat) list" where
  "candidates m e k nd =
     (let v = m * 2 ^ nat e
      in filter (\<lambda>(s, n). 10 ^ (k - 1) \<le> s \<and> s < 10 ^ k
                          \<and> toDouble False (s * 10 ^ (n - k)) 1 = Finite False m e)
           (concat (map (\<lambda>n. [(v div 10 ^ (n - k), n), (v div 10 ^ (n - k) + 1, n)])
                      [nd, nd + 1])))"

definition distanceTo :: "int \<Rightarrow> nat \<Rightarrow> int \<times> nat \<Rightarrow> int" where
  "distanceTo v k c = (case c of (s, n) \<Rightarrow>
     \<bar>s * 10 ^ (n - k) - v\<bar>)"

fun nearest :: "int \<Rightarrow> nat \<Rightarrow> (int \<times> nat) \<Rightarrow> (int \<times> nat) list \<Rightarrow> int \<times> nat" where
  "nearest v k best [] = best"
| "nearest v k best (c # cs) =
     nearest v k (if distanceTo v k c < distanceTo v k best then c else best) cs"

fun shortestDigits :: "int \<Rightarrow> int \<Rightarrow> nat \<Rightarrow> nat \<Rightarrow> nat \<Rightarrow> int \<times> nat \<times> nat" where
  "shortestDigits m e nd k 0 = (m * 2 ^ nat e, nd, nd)"
| "shortestDigits m e nd k (Suc fuel) =
     (case candidates m e k nd of
        [] \<Rightarrow> shortestDigits m e nd (Suc k) fuel
      | c # cs \<Rightarrow> (case nearest (m * 2 ^ nat e) k c cs of (s, n) \<Rightarrow> (s, k, n)))"

definition exponentialString :: "int \<Rightarrow> int \<Rightarrow> string" where
  "exponentialString m e =
     (let nd = length (showNat (m * 2 ^ nat e));
          (s, k, n) = shortestDigits m e nd 1 nd;
          ds = showNat s
      in (if k = 1 then ds else [hd ds] @ ''.'' @ tl ds) @ ''e+'' @ showNat (int n - 1))"

definition toFixed2 :: "jsnum \<Rightarrow> string" where
  "toFixed2 x =
     (case x of
        NaN \<Rightarrow> ''NaN''
      | Infinity neg \<Rightarrow> (if neg then ''-Infinity'' else ''Infinity'')
      | Finite neg m e \<Rightarrow>
          (let sign = (if neg \<and> m > 0 then ''-'' else '''')
           in if \<not> below1e21 m e then sign @ exponentialString m e
              else
                (let ds = showNat (hundredths m e);
                     ds' = (if length ds \<le> 2 then replicate (3 - length ds) (CHR ''0'') @ ds
                            else ds)
                 in sign @ take (length ds' - 2) ds' @ ''.'' @ drop (length ds' - 2) ds')))"

section \<open>Value resolution for mapped columns\<close>

text \<open>\<^verbatim>\<open>s.trim()\<close> and \<^verbatim>\<open>s.trimEnd()\<close>\<close>

definition trimEnd :: "string \<Rightarrow> string" where
  "trimEnd s = rev (dropWhile isWhiteSpace (rev s))"

definition trim :: "string \<Rightarrow> string" where
  "trim s = trimEnd (dropWhile isWhiteSpace s)"

text \<open>\<^verbatim>\<open>s.replace(/\D/g, '')\<close>\<close>

definition digitsOnly :: "string \<Rightarrow> string" where
  "digitsOnly s = filter isDigit s"

text \<open>\<^verbatim>\<open>removeMaskHelper\<close>; its \<^verbatim>\<open>'RG'\<close> case is outside \<^verbatim>\<open>DataType\<close>.\<close>

definition removeMaskHelper :: "string \<Rightarrow> DataType option \<Rightarrow> string" where
  "removeMaskHelper v dt =
     (case dt of
        None \<Rightarrow> ''''
      | Some t \<Rightarrow> (if t = Alfanumerico then v else digitsOnly v))"

text \<open>Removal of every \<^verbatim>\<open>.\<close> but the last one: what the callback of
  \<^verbatim>\<open>replace(/\./g, ...)\<close> with \<^verbatim>\<open>lastIndexOf('.')\<close> does, and what
  \<^verbatim>\<open>parts.slice(0, -1).join('') + '.' + parts[parts.length - 1]\<close> builds.\<close>

definition keepLastDot :: "string \<Rightarrow> string" where
  "keepLastDot s =
     (let r = rev s;
          post = rev (takeWhile (\<lambda>c. c \<noteq> CHR ''.'') r);
          rest = dropWhile (\<lambda>c. c \<noteq> CHR ''.'') r
      in case rest of
           [] \<Rightarrow> s
         | d # pre \<Rightarrow> filter (\<lambda>c. c \<noteq> CHR ''.'') (rev pre) @ ''.'' @ post)"

text \<open>The cleaning of a \<^verbatim>\<open>Numerico\<close> cell before the numeric prefix is matched.\<close>

definition cleanNumeric :: "bool \<Rightarrow> string \<Rightarrow> string" where
  "cleanNumeric rm v =
     (let numStr0 = (if rm then filter (\<lambda>c. isDigit c \<or> c = CHR ''.'' \<or> c = CHR ''-'') v
                     else replaceFirst (CHR '','') ''.''
                            (keepLastDot (filter (\<lambda>c. c \<notin> set ''R$ '') v)))
      in if length (filter (\<lambda>c. c = CHR ''.'') numStr0) > 1 then keepLastDot numStr0
         else numStr0)"

text \<open>\<^verbatim>\<open>numStr.match(/^(-?\d+\.?\d*)|(^-?\.\d+)/)\<close>: the matched prefix, if any.\<close>

definition numericMatch :: "string \<Rightarrow> string option" where
  "numericMatch s =
     (let sign = (if startsWithMinus s then ''-'' else '''');
          t = stripMinus s;
          ip = takeWhile isDigit t;
          r = dropWhile isDigit t
      in if ip \<noteq> []
         then Some (sign @ ip @
                (case r of [] \<Rightarrow> []
                 | c # ds \<Rightarrow> if c = CHR ''.'' then c # takeWhile isDigit ds else []))
         else (case r of
                 [] \<Rightarrow> None
               | c # ds \<Rightarrow> if c = CHR ''.'' \<and> takeWhile isDigit ds \<noteq> []
                           then Some (sign @ c # takeWhile isDigit ds) else None))"

text \<open>The \<^verbatim>\<open>'Numerico'\<close> case of the coercion switch.  \<open>v\<close> is the trimmed cell,
  after mask removal when the mapping asks for it.\<close>

definition coerceNumerico :: "bool \<Rightarrow> string \<Rightarrow> string" where
  "coerceNumerico rm v =
     (case numericMatch (cleanNumeric rm v) of
        Some t \<Rightarrow>
          (let numVal = parseFloat t
           in if numVal = NaN then ''0.00'' else toFixed2 numVal)
      | None \<Rightarrow> ''0.00'')"

text \<open>The regular expression \<^verbatim>\<open>^-?\d+\.\d{2}$\<close>.\<close>

definition matchesTwoDecimals :: "string \<Rightarrow> bool" where
  "matchesTwoDecimals s =
     (let t = stripMinus s; ip = takeWhile isDigit t; r = dropWhile isDigit t
      in ip \<noteq> [] \<and>
         (case r of
            [c, d1, d2] \<Rightarrow> c = CHR ''.'' \<and> isDigit d1 \<and> isDigit d2
          | _ \<Rightarrow> False))"

section \<open>Dates\<close>

text \<open>
  A valid \<^verbatim>\<open>Date\<close> is kept as its local calendar day.  \<^verbatim>\<open>parse\<close> of the date
  library is a parameter of the model: \<open>parse s fmt\<close> is the outcome of
  \<^verbatim>\<open>parse(s, fmt, new Date())\<close>, which is a valid date, the invalid date, or an
  exception.
\<close>

record jsdate =
  dyear :: int
  dmonth :: int
  dday :: int

datatype parsed = Threw | InvalidDate | ValidDate jsdate

type_synonym dateParser = "string \<Rightarrow> string \<Rightarrow> parsed"

definition showInt :: "int \<Rightarrow> string" where
  "showInt i = (if i < 0 then ''-'' @ showNat (- i) else showNat i)"

text \<open>\<^verbatim>\<open>String(n).padStart(2, '0')\<close>\<close>

definition pad2 :: "int \<Rightarrow> string" where
  "pad2 n = padStart0 2 (showInt n)"

text \<open>The text built from \<^verbatim>\<open>getFullYear()\<close>, \<^verbatim>\<open>getMonth() + 1\<close> and
  \<^verbatim>\<open>getDate()\<close> for a mapped date.\<close>

definition renderDate :: "DateFormat \<Rightarrow> jsdate \<Rightarrow> string" where
  "renderDate odf d =
     (if odf = YYYYMMDD then showInt (dyear d) @ pad2 (dmonth d) @ pad2 (dday d)
      else pad2 (dday d) @ pad2 (dmonth d) @ showInt (dyear d))"

text \<open>The regular expression \<^verbatim>\<open>/^\d{4}-\d{2}-\d{2}/\<close>.\<close>

definition isoPrefix :: "string \<Rightarrow> bool" where
  "isoPrefix s =
     (case s of
        y1 # y2 # y3 # y4 # h1 # m1 # m2 # h2 # d1 # d2 # _ \<Rightarrow>
          list_all isDigit [y1, y2, y3, y4, m1, m2, d1, d2] \<and> h1 = CHR ''-'' \<and> h2 = CHR ''-''
      | _ \<Rightarrow> False)"

definition commonFormats :: "string list" where
  "commonFormats =
     [''dd/MM/yyyy'', ''d/M/yyyy'', ''dd-MM-yyyy'', ''d-M-yyyy'',
      ''MM/dd/yyyy'', ''M/d/yyyy'', ''MM-dd-yyyy'', ''M-d-yyyy'',
      ''yyyy/MM/dd'', ''yyyy/M/d'', ''yyyy-MM-dd'', ''yyyy-M-d'',
      ''dd/MM/yy'', ''d/M/yy'', ''dd-MM-yy'', ''d-M-yy'',
      ''MM/dd/yy'', ''M/d/yy'', ''MM-dd-yy'', ''M-d-yy'',
      ''yyyyMMdd'', ''ddMMyyyy'', ''yyMMdd'', ''ddMMyy'']"

text \<open>A run of parse attempts on one text: the first valid date ends it, an exception
  leaves the enclosing \<^verbatim>\<open>try\<close>.\<close>

datatype attempt = Found jsdate | NotFound | Raised

fun tryFormats :: "dateParser \<Rightarrow> string \<Rightarrow> string list \<Rightarrow> attempt" where
  "tryFormats parse s [] = NotFound"
| "tryFormats parse s (f # fs) =
     (case parse s f of
        Threw \<Rightarrow> Raised
      | ValidDate d \<Rightarrow> Found d
      | InvalidDate \<Rightarrow> tryFormats parse s fs)"

text \<open>The compact formats tried on the cleaned digits, the one that agrees with the output
  date format first.\<close>

definition compactFormats :: "DateFormat \<Rightarrow> nat \<Rightarrow> string list" where
  "compactFormats odf n =
     (if n = 8 then (if odf = YYYYMMDD then [''yyyyMMdd'', ''ddMMyyyy'']
                     else [''ddMMyyyy'', ''yyyyMMdd''])
      else if n = 6 then (if odf = YYYYMMDD then [''yyMMdd'', ''ddMMyy'']
                          else [''ddMMyy'', ''yyMMdd''])
      else [])"

definition cleanedDate :: "bool \<Rightarrow> string \<Rightarrow> string" where
  "cleanedDate rm v =
     (if rm \<and> v \<noteq> [] then digitsOnly v
      else if v \<noteq> [] then filter (\<lambda>c. c \<notin> set ''-/.'') v
      else v)"

text \<open>
  The \<^verbatim>\<open>'Data'\<close> case of the coercion switch: \<open>ds\<close> is the trimmed original cell
  (\<^verbatim>\<open>dateStringForParsing\<close>), \<open>v\<close> the value after mask removal.  The result is the
  new value and whether \<^verbatim>\<open>console.warn\<close> was called.
\<close>

definition parseData :: "dateParser \<Rightarrow> bool \<Rightarrow> DateFormat \<Rightarrow> string \<Rightarrow> string \<Rightarrow> attempt" where
  "parseData parse rm odf ds v =
     (let cleanedValue = cleanedDate rm v;
          r1 = (if isoPrefix ds then tryFormats parse (take 10 ds) [''yyyy-MM-dd''] else NotFound);
          r2 = (case r1 of NotFound \<Rightarrow> tryFormats parse ds commonFormats | _ \<Rightarrow> r1)
      in case r2 of
           NotFound \<Rightarrow>
             (if cleanedValue \<noteq> [] \<and> list_all isDigit cleanedValue
              then tryFormats parse cleanedValue (compactFormats odf (length cleanedValue))
              else NotFound)
         | _ \<Rightarrow> r2)"

definition coerceData ::
  "dateParser \<Rightarrow> bool \<Rightarrow> DateFormat option \<Rightarrow> string \<Rightarrow> string \<Rightarrow> string \<times> bool" where
  "coerceData parse rm dateFormatOpt ds v =
     (let outputDateFormat = orElse dateFormatOpt DDMMYYYY
      in case parseData parse rm outputDateFormat ds v of
           Found d \<Rightarrow> (renderDate outputDateFormat d, False)
         | NotFound \<Rightarrow> ('''', v \<noteq> [])
         | Raised \<Rightarrow> ('''', False))"

subsection \<open>Calendar arithmetic of the date library\<close>

definition isLeapYear :: "int \<Rightarrow> bool" where
  "isLeapYear y = (y mod 4 = 0 \<and> (y mod 100 \<noteq> 0 \<or> y mod 400 = 0))"

definition daysInMonth :: "int \<Rightarrow> int \<Rightarrow> int" where
  "daysInMonth y m =
     (if m = 2 then (if isLeapYear y then 29 else 28)
      else if m = 4 \<or> m = 6 \<or> m = 9 \<or> m = 11 then 30 else 31)"

text \<open>\<^verbatim>\<open>subMonths(date, n)\<close>: the month moves back by \<open>n\<close>, and the day is kept unless
  the target month is shorter, in which case it is that month's last day.\<close>

definition subMonths :: "jsdate \<Rightarrow> int \<Rightarrow> jsdate" where
  "subMonths d n =
     (let total = dyear d * 12 + (dmonth d - 1) - n;
          y = total div 12;
          m = total mod 12 + 1
      in \<lparr>dyear = y, dmonth = m, dday = min (dday d) (daysInMonth y m)\<rparr>)"

text \<open>A \<^verbatim>\<open>Date\<close> holds at most 100 000 000 days on either side of 1970-01-01; beyond,
  it is the invalid date and \<^verbatim>\<open>format\<close> throws.  Years within 270 000 of 1970 are
  inside that range, and no year further than 280 000 away is.\<close>

definition withinDateRange :: "jsdate \<Rightarrow> bool" where
  "withinDateRange d =
     (let y = dyear d - (if dmonth d \<le> 2 then 1 else 0);
          era = y div 400;
          yoe = y - era * 400;
          mp = (dmonth d + 9) mod 12;
          doy = (153 * mp + 2) div 5 + dday d - 1;
          doe = yoe * 365 + yoe div 4 - yoe div 100 + doy;
          days = era * 146097 + doe - 719468
      in - 100000000 \<le> days \<and> days \<le> 100000000)"

text \<open>\<^verbatim>\<open>format(date, pattern)\<close> for the three patterns in use; \<^verbatim>\<open>yyyy\<close> is the year
  of the era, at least four digits.\<close>

definition pad4Year :: "int \<Rightarrow> string" where
  "pad4Year y = padStart0 4 (showNat (if y > 0 then y else 1 - y))"

definition formatDate :: "string \<Rightarrow> jsdate \<Rightarrow> string" where
  "formatDate pattern d =
     (if pattern = ''yyyyMMdd'' then pad4Year (dyear d) @ pad2 (dmonth d) @ pad2 (dday d)
      else if pattern = ''ddMMyyyy'' then pad2 (dday d) @ pad2 (dmonth d) @ pad4Year (dyear d)
      else pad2 (dmonth d) @ pad4Year (dyear d))"

section \<open>Calculated fields (\<^verbatim>\<open>calculateFieldValue\<close>)\<close>

type_synonym row = "string \<rightharpoonup> string"

text \<open>
  A row is a plain object.  \<^verbatim>\<open>row[h]\<close> and \<^verbatim>\<open>h in row\<close> see the keys the row owns
  and, for a key it does not own, the members of \<^verbatim>\<open>Object.prototype\<close>; such a
  member is a function, or the prototype object itself for \<^verbatim>\<open>__proto__\<close>, and
  \<^verbatim>\<open>String\<close> turns it into the text given here (as V8 prints a native function).
\<close>

definition objectPrototype :: "string \<Rightarrow> string option" where
  "objectPrototype k =
     (if k = ''__proto__'' then Some ''[object Object]''
      else if k = ''constructor'' then Some ''function Object() { [native code] }''
      else if k \<in> set [''__defineGetter__'', ''__defineSetter__'', ''hasOwnProperty'',
                         ''__lookupGetter__'', ''__lookupSetter__'', ''isPrototypeOf'',
                         ''propertyIsEnumerable'', ''toString'', ''valueOf'', ''toLocaleString'']
      then Some (''function '' @ k @ ''() { [native code] }'')
      else None)"

definition rowGet :: "row \<Rightarrow> string \<Rightarrow> string option" where
  "rowGet r h = (case r h of Some v \<Rightarrow> Some v | None \<Rightarrow> objectPrototype h)"

text \<open>\<^verbatim>\<open>parseInt(removeMaskHelper(String(raw ?? '0'), 'Inteiro'), 10)\<close>, with
  \<^verbatim>\<open>NaN\<close> replaced by 0.  The sign test \<^verbatim>\<open>parcelasPagasNum < 0\<close> that follows in
  the script is part of the model although the digits carry no sign.\<close>

definition parcelasPagasOf :: "string option \<Rightarrow> int" where
  "parcelasPagasOf raw =
     (let digits = removeMaskHelper (orElse raw ''0'') (Some Inteiro);
          n = (if digits = [] then None else Some (digitsToInt digits))
      in case n of
           None \<Rightarrow> 0
         | Some k \<Rightarrow> if k < 0 then 0 else k)"

definition dateFormatPattern :: "DateFormat option \<Rightarrow> string" where
  "dateFormatPattern odf = (if odf = Some YYYYMMDD then ''yyyyMMdd'' else ''ddMMyyyy'')"

definition calculateStartDate ::
  "dateParser \<Rightarrow> ColumnMapping list \<Rightarrow> OutputFieldConfig \<Rightarrow> string list \<Rightarrow>
   (string \<times> string) list \<Rightarrow> row \<Rightarrow> string" where
  "calculateStartDate parse ms field requiredInputFields parameters r =
     (let periodStr = orElse (map_of parameters ''period'') '''';
          parcelasMapping = (case requiredInputFields of [] \<Rightarrow> None
                             | fid # _ \<Rightarrow> findMapping ms fid)
      in case parcelasMapping of
           None \<Rightarrow> ''''
         | Some pm \<Rightarrow>
             if periodStr = [] then ''''
             else
               (case parse periodStr ''dd/MM/yyyy'' of
                  Threw \<Rightarrow> ''''
                | InvalidDate \<Rightarrow> ''''
                | ValidDate parsedPeriod \<Rightarrow>
                    (let parcelasPagasNum = parcelasPagasOf (rowGet r (originalHeader pm));
                         startDate = subMonths parsedPeriod parcelasPagasNum
                     in if withinDateRange startDate
                        then formatDate (dateFormatPattern (dateFormat field)) startDate
                        else '''')))"

text \<open>\<^verbatim>\<open>String(raw).replace(/[^\d.,-]/g, '').replace(',', '.')\<close>\<close>

definition cleanValorRealizado :: "string \<Rightarrow> string" where
  "cleanValorRealizado raw =
     replaceFirst (CHR '','') ''.''
       (filter (\<lambda>c. isDigit c \<or> c = CHR ''.'' \<or> c = CHR '','' \<or> c = CHR ''-'') raw)"

definition calculateSituacaoRetorno ::
  "ColumnMapping list \<Rightarrow> string list \<Rightarrow> row \<Rightarrow> string" where
  "calculateSituacaoRetorno ms requiredInputFields r =
     (let valorRealizadoMapping = (case requiredInputFields of [] \<Rightarrow> None
                                   | fid # _ \<Rightarrow> findMapping ms fid)
      in case valorRealizadoMapping of
           None \<Rightarrow> ''''
         | Some vm \<Rightarrow>
             (let valorRealizadoRaw = orElse (rowGet r (originalHeader vm)) ''0'';
                  numValorRealizado = parseFloat (cleanValorRealizado valorRealizadoRaw)
              in if numValorRealizado \<noteq> NaN \<and> jsPositive numValorRealizado then ''T''
                 else ''R''))"

definition formatPeriodMMAAAA ::
  "dateParser \<Rightarrow> jsdate \<Rightarrow> ColumnMapping list \<Rightarrow> string list \<Rightarrow> (string \<times> string) list \<Rightarrow>
   row \<Rightarrow> string" where
  "formatPeriodMMAAAA parse today ms requiredInputFields parameters r =
     (let periodoMapping = (if ''periodo'' \<in> set requiredInputFields
                            then findMapping ms ''periodo'' else None);
          periodoValue = (case periodoMapping of None \<Rightarrow> ''''
                          | Some pm \<Rightarrow> orElse (rowGet r (originalHeader pm)) '''');
          fromParameter = orElse (map_of parameters ''periodForMMAAAA'') '''';
          found = (if periodoValue \<noteq> []
                   then tryFormats parse periodoValue
                          [''dd/MM/yyyy'', ''MM/dd/yyyy'', ''yyyy-MM-dd'', ''yyyyMMdd'', ''ddMMyyyy'']
                   else if fromParameter \<noteq> []
                   then tryFormats parse fromParameter [''dd/MM/yyyy'']
                   else NotFound)
      in case found of
           Raised \<Rightarrow> ''''
         | Found d \<Rightarrow> formatDate ''MMyyyy'' d
         | NotFound \<Rightarrow> formatDate ''MMyyyy'' today)"

definition calculateFieldValue ::
  "dateParser \<Rightarrow> jsdate \<Rightarrow> ColumnMapping list \<Rightarrow> OutputFieldConfig \<Rightarrow> row \<Rightarrow> string" where
  "calculateFieldValue parse today ms field r =
     (case kind field of
        Calculated t _ req params \<Rightarrow>
          (case t of
             CalculateStartDate \<Rightarrow> calculateStartDate parse ms field req params r
           | CalculateSituacaoRetorno \<Rightarrow> calculateSituacaoRetorno ms req r
           | FormatPeriodMMAAAA \<Rightarrow> formatPeriodMMAAAA parse today ms req params r)
      | _ \<Rightarrow> '''')"

section \<open>Conversion (\<^verbatim>\<open>convertFile\<close>)\<close>

text \<open>Whether the \<^verbatim>\<open>'Numerico'\<close> case logs its warning: no numeric prefix, and the
  value is none of \<^verbatim>\<open>''\<close>, \<^verbatim>\<open>'0'\<close>, \<^verbatim>\<open>'-'\<close>.\<close>

definition coerceNumericoWarns :: "bool \<Rightarrow> string \<Rightarrow> bool" where
  "coerceNumericoWarns rm v =
     (numericMatch (cleanNumeric rm v) = None \<and> v \<noteq> '''' \<and> v \<noteq> ''0'' \<and> v \<noteq> ''-'')"

text \<open>
  The coercion of one mapped cell: trimming, optional mask removal, then the switch on the
  mapping's data type.  The result is the value and whether a warning was logged.
\<close>

definition mappedCellValue ::
  "dateParser \<Rightarrow> ColumnMapping \<Rightarrow> DateFormat option \<Rightarrow> string \<Rightarrow> string \<times> bool" where
  "mappedCellValue parse mapping dateFormatOpt originalValue =
     (let value0 = trim originalValue;
          dt = dataType mapping;
          value1 = (if removeMask mapping \<and> dt \<noteq> None \<and> value0 \<noteq> []
                    then removeMaskHelper value0 dt else value0)
      in case dt of
           None \<Rightarrow> (value1, False)
         | Some t \<Rightarrow>
             if t = CPF \<or> t = CNPJ \<or> t = Inteiro
             then (if \<not> removeMask mapping \<and> value1 \<noteq> [] then digitsOnly value1 else value1,
                   False)
             else if t = Numerico
             then (coerceNumerico (removeMask mapping) value1,
                   coerceNumericoWarns (removeMask mapping) value1)
             else if t = Data
             then coerceData parse (removeMask mapping) dateFormatOpt value0 value1
             else (value1, False))"

text \<open>The resolved value of one output field for one row.  \<open>hasData\<close> says that the
  input table has rows.\<close>

definition resolveValue ::
  "dateParser \<Rightarrow> jsdate \<Rightarrow> ColumnMapping list \<Rightarrow> bool \<Rightarrow> OutputFieldConfig \<Rightarrow> row \<Rightarrow> string" where
  "resolveValue parse today ms hasData field r =
     (case kind field of
        Static _ v \<Rightarrow> v
      | Calculated _ _ _ _ \<Rightarrow>
          (let v = calculateFieldValue parse today ms field r
           in if getOutputFieldDataType ms field = Some Data \<and> v \<noteq> [] \<and> dateFormat field \<noteq> None
              then (case parse v (dateFormatPattern (dateFormat field)) of
                      ValidDate _ \<Rightarrow> v
                    | _ \<Rightarrow> '''')
              else v)
      | Mapped mf \<Rightarrow>
          (case findMapping ms mf of
             None \<Rightarrow> ''''
           | Some m \<Rightarrow>
               if originalHeader m = [] then ''''
               else if rowGet r (originalHeader m) = None \<and> hasData then ''''
               else fst (mappedCellValue parse m (dateFormat field)
                           (orElse (rowGet r (originalHeader m)) ''''))))"

text \<open>One physical line, without its newline.\<close>

fun joinWith :: "string \<Rightarrow> string list \<Rightarrow> string" where
  "joinWith d [] = []"
| "joinWith d [x] = x"
| "joinWith d (x # y # ys) = x @ d @ joinWith d (y # ys)"

definition outputLine ::
  "dateParser \<Rightarrow> jsdate \<Rightarrow> ColumnMapping list \<Rightarrow> bool \<Rightarrow> OutputFormat \<Rightarrow> string \<Rightarrow>
   OutputFieldConfig list \<Rightarrow> row \<Rightarrow> string" where
  "outputLine parse today ms hasData fmt delim sortedOutputFields r =
     (if fmt = TXT
      then concat (map (\<lambda>f. formatTxtField ms f (resolveValue parse today ms hasData f r))
                     sortedOutputFields)
      else joinWith delim
             (map (\<lambda>f. csvCell delim (getOutputFieldDataType ms f)
                          (resolveValue parse today ms hasData f r))
                sortedOutputFields))"

text \<open>The text handed to the encoder: every line is followed by a newline, and
  \<^verbatim>\<open>trimEnd()\<close> is applied to the whole.\<close>

definition renderRows ::
  "dateParser \<Rightarrow> jsdate \<Rightarrow> ColumnMapping list \<Rightarrow> row list \<Rightarrow> OutputConfig \<Rightarrow> string" where
  "renderRows parse today ms fileData cfg =
     (let sortedOutputFields = sortByOrder (fields_c cfg);
          dataToProcess = (if fileData \<noteq> [] then fileData else [Map.empty]);
          resultString =
            concat (map (\<lambda>r. outputLine parse today ms (fileData \<noteq> []) (format_c cfg)
                                  (orElse (delimiter cfg) '''') sortedOutputFields r @ [newline])
                      dataToProcess)
      in trimEnd resultString)"

subsection \<open>Checks made before any row is processed\<close>

datatype ConvertError =
    CalculatedFieldIssues | NoOutputFields | MissingDataType | InvalidLength
  | InvalidPaddingChar | MissingDelimiter | MissingDateFormat | UncaughtException

definition periodIsBad :: "dateParser \<Rightarrow> (string \<times> string) list \<Rightarrow> bool" where
  "periodIsBad parse params =
     (case map_of params ''period'' of
        None \<Rightarrow> True
      | Some p \<Rightarrow> p = [] \<or> (case parse p ''dd/MM/yyyy'' of ValidDate _ \<Rightarrow> False | _ \<Rightarrow> True))"

text \<open>\<open>names\<close> is the catalog of predefined fields, id to display name.  A calculated
  field blocks the run when it has an issue and its description is not empty.\<close>

definition missingInputsText :: "(string \<times> string) list \<Rightarrow> ColumnMapping list \<Rightarrow> string list \<Rightarrow> string" where
  "missingInputsText names ms req =
     joinWith '', ''
       (map (\<lambda>reqId. case map_of names reqId of
                        None \<Rightarrow> reqId
                      | Some n \<Rightarrow> if n = [] then reqId else n)
          (filter (\<lambda>reqId. \<not> hasMapping ms reqId) req))"

definition calculatedFieldBlocks ::
  "dateParser \<Rightarrow> (string \<times> string) list \<Rightarrow> ColumnMapping list \<Rightarrow> OutputFieldConfig \<Rightarrow> bool" where
  "calculatedFieldBlocks parse names ms f =
     (case kind f of
        Calculated t _ req params \<Rightarrow>
          ((t \<noteq> FormatPeriodMMAAAA \<and> list_ex (\<lambda>reqId. \<not> hasMapping ms reqId) req)
            \<or> (t = CalculateStartDate \<and> periodIsBad parse params))
          \<and> ((missingInputsText names ms req \<noteq> [] \<and> t \<noteq> FormatPeriodMMAAAA)
               \<or> (t = CalculateStartDate \<and> periodIsBad parse params))
      | _ \<Rightarrow> False)"

text \<open>The period of a \<^verbatim>\<open>CalculateStartDate\<close> field is parsed during this check, outside
  any \<^verbatim>\<open>try\<close>: an exception of the parser leaves \<^verbatim>\<open>convertFile\<close>.\<close>

definition calculatedFieldThrows ::
  "dateParser \<Rightarrow> ColumnMapping list \<Rightarrow> OutputFieldConfig \<Rightarrow> bool" where
  "calculatedFieldThrows parse ms f =
     (case kind f of
        Calculated t _ req params \<Rightarrow>
          t = CalculateStartDate \<and> \<not> list_ex (\<lambda>reqId. \<not> hasMapping ms reqId) req
          \<and> (case map_of params ''period'' of
                 None \<Rightarrow> False
               | Some p \<Rightarrow> p \<noteq> [] \<and> parse p ''dd/MM/yyyy'' = Threw)
      | _ \<Rightarrow> False)"

definition usedMappingLacksType :: "ColumnMapping list \<Rightarrow> OutputFieldConfig list \<Rightarrow> bool" where
  "usedMappingLacksType ms fs =
     list_ex (\<lambda>m. case mappedField m of
                    None \<Rightarrow> False
                  | Some mf \<Rightarrow> mf \<noteq> [] \<and> list_ex (\<lambda>f. kind f = Mapped mf) fs
                               \<and> dataType m = None) ms"

text \<open>The checks in the order of the source.  The test on \<^verbatim>\<open>!fileData\<close> that follows
  the calculated-field check never fires (the table is an array, empty at worst), so it
  has no branch here.\<close>

definition validateConfig ::
  "dateParser \<Rightarrow> (string \<times> string) list \<Rightarrow> ColumnMapping list \<Rightarrow> OutputConfig \<Rightarrow>
   ConvertError option" where
  "validateConfig parse names ms cfg =
     (let fs = fields_c cfg in
      if list_ex (calculatedFieldThrows parse ms) fs then Some UncaughtException
      else if list_ex (calculatedFieldBlocks parse names ms) fs then Some CalculatedFieldIssues
      else if fs = [] then Some NoOutputFields
      else if usedMappingLacksType ms fs then Some MissingDataType
      else if format_c cfg = TXT
              \<and> list_ex (\<lambda>f. case length_f f of None \<Rightarrow> True | Some n \<Rightarrow> n \<le> 0) fs
      then Some InvalidLength
      else if format_c cfg = TXT
              \<and> list_ex (\<lambda>f. case paddingChar f of None \<Rightarrow> True | Some p \<Rightarrow> length p \<noteq> 1) fs
      then Some InvalidPaddingChar
      else if format_c cfg = CSV \<and> orElse (delimiter cfg) '''' = []
      then Some MissingDelimiter
      else if list_ex (\<lambda>f. getOutputFieldDataType ms f = Some Data \<and> dateFormat f = None) fs
      then Some MissingDateFormat
      else None)"

definition convertFile ::
  "dateParser \<Rightarrow> jsdate \<Rightarrow> (string \<times> string) list \<Rightarrow> ColumnMapping list \<Rightarrow> row list \<Rightarrow>
   OutputConfig \<Rightarrow> ConvertError + string" where
  "convertFile parse today names ms fileData cfg =
     (case validateConfig parse names ms cfg of
        Some err \<Rightarrow> Inl err
      | None \<Rightarrow> Inr (renderRows parse today ms fileData cfg))"

section \<open>The shape of a reconciled schema\<close>

definition isMapped :: "OutputFieldConfig \<Rightarrow> bool" where
  "isMapped f = (case kind f of Mapped _ \<Rightarrow> True | _ \<Rightarrow> False)"

text \<open>The field ids of the mapped descriptors of a field list, in order.\<close>

definition keysOf :: "OutputFieldConfig list \<Rightarrow> string list" where
  "keysOf fs = concat (map (\<lambda>f. case kind f of Mapped k \<Rightarrow> [k] | _ \<Rightarrow> []) fs)"

text \<open>The fixed-width properties are all present in a \<^verbatim>\<open>txt\<close> schema and all absent
  otherwise.\<close>

definition settled :: "OutputFormat \<Rightarrow> OutputFieldConfig \<Rightarrow> bool" where
  "settled fmt f =
     (if fmt = TXT
      then length_f f \<noteq> None \<and> paddingChar f \<noteq> None \<and> paddingDirection f \<noteq> None
      else length_f f = None \<and> paddingChar f = None \<and> paddingDirection f = None)"

definition fieldReconciled :: "ColumnMapping list \<Rightarrow> OutputFormat \<Rightarrow> OutputFieldConfig \<Rightarrow> bool" where
  "fieldReconciled ms fmt f =
     (case kind f of
        Static _ _ \<Rightarrow> settled fmt f
      | Calculated _ _ _ _ \<Rightarrow>
          settled fmt f \<and> (if isDateFieldCalc (kind f) then dateFormat f \<noteq> None else True)
          \<and> keepCalculated ms f
      | Mapped k \<Rightarrow> k \<noteq> [] \<and> hasMapping ms k \<and> refreshExisting ms fmt k f = f)"

definition schemaReconciled :: "ColumnMapping list \<Rightarrow> OutputFormat \<Rightarrow> OutputFieldConfig list \<Rightarrow> bool" where
  "schemaReconciled ms fmt fs =
     (denseOrder fs \<and> distinct (keysOf fs) \<and> list_all (fieldReconciled ms fmt) fs
      \<and> list_all (\<lambda>m. case mappedField m of None \<Rightarrow> True
                       | Some k \<Rightarrow> k = [] \<or> k \<in> set (keysOf fs)) ms)"

text \<open>The association list that holds exactly the mapped descriptors of a field list.\<close>

definition pairsOf :: "OutputFieldConfig list \<Rightarrow> (string \<times> OutputFieldConfig) list" where
  "pairsOf fs = concat (map (\<lambda>f. case kind f of Mapped k \<Rightarrow> [(k, f)] | _ \<Rightarrow> []) fs)"

text \<open>The column mappings that carry a field id, paired with it, in column order.\<close>

definition mappedPairs :: "ColumnMapping list \<Rightarrow> (string \<times> ColumnMapping) list" where
  "mappedPairs ms = List.map_filter (\<lambda>m. map_option (\<lambda>mf. (mf, m)) (mappedField m)) ms"

definition keyOf :: "OutputFieldConfig \<Rightarrow> string" where
  "keyOf f = (case kind f of Mapped k \<Rightarrow> k | _ \<Rightarrow> [])"

text \<open>The state of \<^verbatim>\<open>uniqueMappedFieldsMap\<close>: keys are distinct, non-empty, and each
  names the mapped descriptor stored under it.\<close>

definition wfUnique :: "(string \<times> OutputFieldConfig) list \<Rightarrow> bool" where
  "wfUnique al =
     (distinct (map fst al) \<and> list_all (\<lambda>(k, v). kind v = Mapped k \<and> k \<noteq> []) al)"

section \<open>The date coercion as the specification words it\<close>

text \<open>
  The specification describes the date coercion as one ordered list of attempts, each a
  text and a format: the ISO format on the first ten characters when the trimmed cell starts
  like an ISO date, then the fixed list of common formats on the trimmed cell, then, when
  the cleaned value is all digits, the two compact formats for its length (6 or 8), the one
  that agrees with the output date format first.  The first attempt that gives a valid date
  decides.
\<close>

definition spec_dateAttempts :: "DateFormat \<Rightarrow> string \<Rightarrow> string \<Rightarrow> (string \<times> string) list" where
  "spec_dateAttempts odf ds cleaned =
     (if isoPrefix ds then [(take 10 ds, ''yyyy-MM-dd'')] else [])
     @ map (\<lambda>f. (ds, f)) commonFormats
     @ (if cleaned \<noteq> [] \<and> list_all isDigit cleaned
        then map (\<lambda>f. (cleaned, f)) (compactFormats odf (length cleaned)) else [])"

fun spec_firstValid :: "dateParser \<Rightarrow> (string \<times> string) list \<Rightarrow> attempt" where
  "spec_firstValid parse [] = NotFound"
| "spec_firstValid parse ((s, f) # rest) =
     (case parse s f of
        Threw \<Rightarrow> Raised
      | ValidDate d \<Rightarrow> Found d
      | InvalidDate \<Rightarrow> spec_firstValid parse rest)"


section \<open>The situation code in declarative terms\<close>

text \<open>
  What the \<^verbatim>\<open>CalculateSituacaoRetorno\<close> evaluator reads in a cell, said without the
  script's functions.  Every character other than a digit, a point, a comma and a minus sign
  is deleted, and the first comma becomes a point.  Of the text that is left only the
  leading decimal counts: a minus sign if the text starts with one, the digits that follow,
  and, when a point comes next, the digits after that point.  Whatever follows is ignored,
  and so are further points, commas and minus signs.
\<close>

definition spec_amountChar :: "char \<Rightarrow> bool" where
  "spec_amountChar c = (c \<in> set ''0123456789.,-'')"

definition spec_stripNoise :: "string \<Rightarrow> string" where
  "spec_stripNoise cell = filter spec_amountChar cell"

definition spec_decimalPoint :: "string \<Rightarrow> string" where
  "spec_decimalPoint s =
     (case dropWhile (\<lambda>c. c \<noteq> CHR '','') s of
        [] \<Rightarrow> s
      | _ # rest \<Rightarrow> takeWhile (\<lambda>c. c \<noteq> CHR '','') s @ CHR ''.'' # rest)"

definition spec_leadingDecimal :: "string \<Rightarrow> bool \<times> string \<times> string" where
  "spec_leadingDecimal s =
     (let negative = (take 1 s = ''-'');
          body = (if negative then drop 1 s else s);
          whole = takeWhile (\<lambda>c. c \<in> set ''0123456789'') body;
          rest = dropWhile (\<lambda>c. c \<in> set ''0123456789'') body;
          fraction = (if take 1 rest = ''.''
                      then takeWhile (\<lambda>c. c \<in> set ''0123456789'') (drop 1 rest) else [])
      in (negative, whole, fraction))"

text \<open>The number a string of digits denotes, most significant digit first.\<close>

fun spec_digits :: "string \<Rightarrow> int" where
  "spec_digits [] = 0"
| "spec_digits (c # cs) = (of_char c - 48) * 10 ^ length cs + spec_digits cs"

text \<open>
  The leading decimal \<open>whole.fraction\<close> is strictly positive as a Number when it carries
  no minus sign and its value \<open>n / 10\<^sup>k\<close> (\<open>n\<close> the digits, \<open>k\<close> the length of the
  fraction) exceeds \<open>2\<^sup>-\<^sup>1\<^sup>0\<^sup>7\<^sup>5\<close>, half the least positive double: a smaller
  value is read as 0.  A text without leading digits has \<open>n = 0\<close>.
\<close>

definition spec_strictlyPositive :: "string \<Rightarrow> bool" where
  "spec_strictlyPositive s =
     (case spec_leadingDecimal s of
        (negative, whole, fraction) \<Rightarrow>
          \<not> negative \<and> 10 ^ length fraction < spec_digits (whole @ fraction) * 2 ^ 1075)"

section \<open>Example configurations\<close>

definition exampleField :: OutputFieldConfig where
  "exampleField =
     \<lparr>id_f = ''static-1'', order_f = 0, length_f = Some 6, paddingChar = Some ''0'',
      paddingDirection = Some PadLeft, dateFormat = None, isStaticFromPreset = None,
      kind = Static ''Saldo'' ''-12.5''\<rparr>"


definition exampleStamp :: "nat \<Rightarrow> string" where
  "exampleStamp i = ''1700000000000''"

definition nomeMapping :: ColumnMapping where
  "nomeMapping =
     \<lparr>originalHeader = ''NOME'', mappedField = Some ''nome'', dataType = Some Alfanumerico,
      length_m = Some 20, removeMask = False\<rparr>"

definition nomeField :: OutputFieldConfig where
  "nomeField =
     \<lparr>id_f = ''mapped-nome-1'', order_f = 0, length_f = Some 20, paddingChar = Some '' '',
      paddingDirection = Some PadRight, dateFormat = None, isStaticFromPreset = Some False,
      kind = Mapped ''nome''\<rparr>"

definition situacaoField :: OutputFieldConfig where
  "situacaoField =
     \<lparr>id_f = ''calc-situacao-1'', order_f = 1, length_f = Some 1, paddingChar = Some '' '',
      paddingDirection = Some PadRight, dateFormat = None, isStaticFromPreset = None,
      kind = Calculated CalculateSituacaoRetorno ''Situacao'' [''valor_realizado''] []\<rparr>"

definition periodoField :: OutputFieldConfig where
  "periodoField =
     \<lparr>id_f = ''calc-periodo-1'', order_f = 2, length_f = Some 6, paddingChar = Some ''0'',
      paddingDirection = Some PadLeft, dateFormat = Some DDMMYYYY, isStaticFromPreset = None,
      kind = Calculated FormatPeriodMMAAAA ''Periodo'' [''periodo''] []\<rparr>"

definition exampleConfig :: OutputConfig where
  "exampleConfig =
     \<lparr>format_c = TXT, delimiter = None, fields_c = [nomeField, situacaoField, periodoField]\<rparr>"

definition laterStamp :: "nat \<Rightarrow> string" where
  "laterStamp i = ''1800000000000''"

definition cpfMapping :: ColumnMapping where
  "cpfMapping =
     \<lparr>originalHeader = ''CPF'', mappedField = Some ''cpf'', dataType = Some CPF,
      length_m = None, removeMask = True\<rparr>"

text \<open>A date parser for the examples: it reads \<^verbatim>\<open>dd/MM/yyyy\<close> with a two-digit day and
  month and a four-digit year, and finds every other text or format invalid.\<close>

definition sampleParse :: dateParser where
  "sampleParse s fmt =
     (if fmt = ''dd/MM/yyyy''
      then (case s of
              [d1, d2, s1, m1, m2, s2, y1, y2, y3, y4] \<Rightarrow>
                if list_all isDigit [d1, d2, m1, m2, y1, y2, y3, y4]
                   \<and> s1 = CHR ''/'' \<and> s2 = CHR ''/''
                   \<and> 1 \<le> digitsToInt [m1, m2] \<and> digitsToInt [m1, m2] \<le> 12
                   \<and> 1 \<le> digitsToInt [d1, d2]
                   \<and> digitsToInt [d1, d2]
                       \<le> daysInMonth (digitsToInt [y1, y2, y3, y4]) (digitsToInt [m1, m2])
                then ValidDate \<lparr>dyear = digitsToInt [y1, y2, y3, y4],
                                 dmonth = digitsToInt [m1, m2], dday = digitsToInt [d1, d2]\<rparr>
                else InvalidDate
            | _ \<Rightarrow> InvalidDate)
      else InvalidDate)"

definition sampleToday :: jsdate where
  "sampleToday = \<lparr>dyear = 2025, dmonth = 1, dday = 15\<rparr>"

definition parcelasMapping :: ColumnMapping where
  "parcelasMapping =
     \<lparr>originalHeader = ''PARCELAS'', mappedField = Some ''parcelas_pagas'',
      dataType = Some Inteiro, length_m = None, removeMask = False\<rparr>"

definition valorMapping :: ColumnMapping where
  "valorMapping =
     \<lparr>originalHeader = ''VALOR'', mappedField = Some ''valor_realizado'',
      dataType = Some Numerico, length_m = None, removeMask = False\<rparr>"

definition nascimentoMapping :: ColumnMapping where
  "nascimentoMapping =
     \<lparr>originalHeader = ''NASC'', mappedField = Some ''data_nascimento'',
      dataType = Some Data, length_m = None, removeMask = True\<rparr>"

definition startDateField :: OutputFieldConfig where
  "startDateField =
     \<lparr>id_f = ''calc-inicio-1'', order_f = 0, length_f = Some 8, paddingChar = Some ''0'',
      paddingDirection = Some PadLeft, dateFormat = Some DDMMYYYY, isStaticFromPreset = None,
      kind = Calculated CalculateStartDate ''Data Inicio'' [''parcelas_pagas'']
               [(''period'', ''31/12/2024'')]\<rparr>"

definition obsField :: OutputFieldConfig where
  "obsField =
     \<lparr>id_f = ''static-obs-1'', order_f = 0, length_f = Some 5, paddingChar = Some '' '',
      paddingDirection = Some PadRight, dateFormat = None, isStaticFromPreset = None,
      kind = Static ''Obs'' ''ab''\<rparr>"

definition obsConfig :: OutputConfig where
  "obsConfig = \<lparr>format_c = TXT, delimiter = None, fields_c = [obsField]\<rparr>"


text \<open>A column whose header is the name of a member of \<^verbatim>\<open>Object.prototype\<close>.\<close>

definition constructorMapping :: ColumnMapping where
  "constructorMapping =
     \<lparr>originalHeader = ''constructor'', mappedField = Some ''nome'',
      dataType = Some Alfanumerico, length_m = None, removeMask = False\<rparr>"
section \<open>Properties of the fixed-width formatter\<close>

lemma repeat_length_ge:
  assumes "p \<noteq> []" and "0 < n"
  shows "nat n \<le> length (repeat p n)"
proof -
  have "\<And>k. k \<le> length (concat (replicate k p))"
  proof -
    fix k show "k \<le> length (concat (replicate k p))"
    proof (induction k)
      case 0
      show ?case by simp
    next
      case (Suc k)
      from assms(1) have "1 \<le> length p" by (cases p) simp_all
      with Suc show ?case by simp
    qed
  qed
  then show ?thesis by (simp add: repeat_def)
qed

lemma padCore_length_ge:
  assumes "p \<noteq> []"
  shows "room \<le> int (length (padCore p d room v))"
proof (cases "room - int (length v) > 0")
  case True
  then have "nat (room - int (length v)) \<le> length (repeat p (room - int (length v)))"
    using assms by (intro repeat_length_ge) simp_all
  then have "room - int (length v) \<le> int (length (repeat p (room - int (length v))))"
    by linarith
  moreover have "length (padCore p d room v) = length (repeat p (room - int (length v))) + length v"
    using True by (simp add: padCore_def Let_def)
  ultimately show ?thesis by linarith
next
  case False
  then show ?thesis by (simp add: padCore_def Let_def)
qed

lemma reinsertPoint_length_gt: "length p < length (reinsertPoint p)"
  by (simp add: reinsertPoint_def sliceTo_def sliceFrom_def padStart0_def)

lemma clamp_length:
  assumes "0 < len" and "len \<le> int (length s)"
  shows "int (length (if int (length s) > len
            then (if b then sliceFrom (- len) s else sliceTo len s) else s)) = len"
  using assms by (auto simp: sliceFrom_def sliceTo_def)

lemma padCharOf_nonempty: "padCharOf ms f \<noteq> []"
  by (simp add: padCharOf_def getDefaultPaddingChar_def
      split: option.splits FieldKind.splits)

lemma formatFixed_length:
  assumes "0 < len" and "p \<noteq> []"
  shows "int (length (formatFixed len p d dt v)) = len"
proof -
  define isNegative where "isNegative = startsWithMinus v"
  define coreValue where "coreValue = (if isNegative then tl v else v)"
  define sign where "sign = (if isNegative then ''-'' else '''')"
  define room where "room = (if isNegative then len - 1 else len)"
  define check0 where "check0 = (if dt = Some Numerico \<and> p = ''0''
                       then replaceFirst (CHR ''.'') '''' coreValue else coreValue)"
  define check1 where "check1 = (if int (length check0) > room
                       then (if keepsTrailing d dt then sliceFrom (- room) check0
                             else substring0 room check0)
                       else check0)"
  define core' where "core' = (if dt = Some Numerico \<and> p = ''0'' \<and> CHR ''.'' \<in> set coreValue
                      then reinsertPoint (padCore p d room check1)
                      else padCore p d room check1)"
  define padded where "padded = sign @ core'"
  have room_le: "room \<le> int (length (padCore p d room check1))"
    using assms(2) by (rule padCore_length_ge)
  have "room \<le> int (length core')"
  proof (cases "dt = Some Numerico \<and> p = ''0'' \<and> CHR ''.'' \<in> set coreValue")
    case True
    have eq: "core' = reinsertPoint (padCore p d room check1)"
      unfolding core'_def using True by (rule if_P)
    have "length (padCore p d room check1) < length (reinsertPoint (padCore p d room check1))"
      by (rule reinsertPoint_length_gt)
    with room_le show ?thesis unfolding eq by linarith
  next
    case False
    have eq: "core' = padCore p d room check1"
      unfolding core'_def using False by (rule if_not_P)
    from room_le show ?thesis unfolding eq .
  qed
  then have "len \<le> int (length padded)"
    by (simp add: padded_def sign_def room_def split: if_splits)
  with assms(1)
  have "int (length (if int (length padded) > len
            then (if keepsTrailing d dt then sliceFrom (- len) padded else sliceTo len padded)
            else padded)) = len"
    by (rule clamp_length)
  moreover have "formatFixed len p d dt v =
      (if int (length padded) > len
       then (if keepsTrailing d dt then sliceFrom (- len) padded else sliceTo len padded)
       else padded)"
    using assms(1)
    unfolding formatFixed_def Let_def padded_def core'_def check1_def check0_def room_def
      sign_def coreValue_def isNegative_def
    by simp
  ultimately show ?thesis by simp
qed

text \<open>
  Claim C1.  For every output field of a fixed-width conversion whose configured length is
  greater than 0, and for every resolved value, the formatted string has exactly that many
  characters.
\<close>

theorem C1_fixed_width_exact_length:
  assumes "length_f f = Some len" and "0 < len"
  shows "int (length (formatTxtField ms f v)) = len"
  using assms formatFixed_length [OF assms(2) padCharOf_nonempty]
  by (simp add: formatTxtField_def)

theorem C1_fixed_width_exact_length_witness:
  "length_f exampleField = Some 6 \<and> (0::int) < 6 \<and>
   int (length (formatTxtField [] exampleField ''-12.5'')) = 6"
  using C1_fixed_width_exact_length [of exampleField 6 "[]" "''-12.5''"]
  by (simp add: exampleField_def)

lemma formatFixed_negative_integer:
  "formatFixed 7 ''0'' PadLeft (Some Inteiro) ''-123'' = ''-000123''"
  by (simp add: formatFixed_def Let_def startsWithMinus_def padCore_def repeat_def
      keepsTrailing_def numeral_eq_Suc)

lemma formatFixed_numeric_overflow:
  "formatTxtField [] exampleField ''-12.5'' = ''001.25''"
  by (simp add: formatTxtField_def exampleField_def formatFixed_def Let_def startsWithMinus_def
      padCore_def repeat_def keepsTrailing_def padCharOf_def padDirOf_def effectiveDataType_def
      matchesDecimal_def matchesInteger_def stripMinus_def isDigit_def reinsertPoint_def
      sliceTo_def sliceFrom_def numeral_eq_Suc)

section \<open>Properties of the delimited output\<close>

lemma startsWith_iff: "startsWith s d \<longleftrightarrow> (\<exists>ys. s = d @ ys)"
  by (induction s d rule: startsWith.induct) auto

lemma includes_s_iff: "includes_s s d \<longleftrightarrow> (\<exists>xs ys. s = xs @ d @ ys)"
proof (induction s)
  case Nil
  show ?case by auto
next
  case (Cons c cs)
  show ?case
  proof
    assume "includes_s (c # cs) d"
    then consider "startsWith (c # cs) d" | "includes_s cs d" by auto
    then show "\<exists>xs ys. c # cs = xs @ d @ ys"
    proof cases
      case 1
      then obtain ys where "c # cs = d @ ys" by (auto simp: startsWith_iff)
      then have "c # cs = [] @ d @ ys" by simp
      then show ?thesis by blast
    next
      case 2
      with Cons obtain xs ys where "cs = xs @ d @ ys" by auto
      then have "c # cs = (c # xs) @ d @ ys" by simp
      then show ?thesis by blast
    qed
  next
    assume "\<exists>xs ys. c # cs = xs @ d @ ys"
    then obtain xs ys where eq: "c # cs = xs @ d @ ys" by blast
    show "includes_s (c # cs) d"
    proof (cases xs)
      case Nil
      with eq have "startsWith (c # cs) d" by (auto simp: startsWith_iff)
      then show ?thesis by simp
    next
      case (Cons x xs')
      with eq have "cs = xs' @ d @ ys" by simp
      with Cons.IH have "includes_s cs d" by blast
      then show ?thesis by simp
    qed
  qed
qed

lemma includes_s_single: "includes_s s [c] \<longleftrightarrow> c \<in> set s"
  by (induction s) auto

lemma doubleQuotes_concat:
  "doubleQuotes w = concat (map (\<lambda>c. if c = dquote then [dquote, dquote] else [c]) w)"
  by (induction w) auto

lemma doubleQuotes_length: "length w \<le> length (doubleQuotes w)"
  by (induction w) auto

lemma replaceFirst_split:
  "replaceFirst c [d] s =
     (case dropWhile (\<lambda>x. x \<noteq> c) s of [] \<Rightarrow> s | _ # rest \<Rightarrow> takeWhile (\<lambda>x. x \<noteq> c) s @ d # rest)"
proof (induction s)
  case Nil
  show ?case by simp
next
  case (Cons x s)
  show ?case
  proof (cases "x = c")
    case True
    then show ?thesis by simp
  next
    case False
    have dw: "dropWhile (\<lambda>x. x \<noteq> c) (x # s) = dropWhile (\<lambda>x. x \<noteq> c) s"
      "takeWhile (\<lambda>x. x \<noteq> c) (x # s) = x # takeWhile (\<lambda>x. x \<noteq> c) s"
      using False by simp_all
    have rf: "replaceFirst c [d] (x # s) = x # replaceFirst c [d] s"
      using False by simp
    show ?thesis unfolding dw rf Cons.IH
      by (cases "dropWhile (\<lambda>x. x \<noteq> c) s") (simp_all only: list.case append_Cons)
  qed
qed

lemma csvValue_decimal_comma:
  "csvValue dt v =
     (if dt = Some Numerico
      then (case dropWhile (\<lambda>c. c \<noteq> CHR ''.'') v of
              [] \<Rightarrow> v
            | _ # rest \<Rightarrow> takeWhile (\<lambda>c. c \<noteq> CHR ''.'') v @ CHR '','' # rest)
      else v)"
  unfolding csvValue_def replaceFirst_split ..

text \<open>
  Claim C3, as amended.  In delimited output the text \<open>w\<close> of a cell is the resolved value,
  with its first point turned into a comma when the field is of type \<^verbatim>\<open>Numerico\<close>.
  That text is wrapped in double quotes, every embedded double quote doubled, if and only if
  it contains the delimiter, a double quote or a newline; otherwise it is emitted as it is,
  without quotes.
\<close>

theorem C3_csv_quoting:
  "(let w = (if dt = Some Numerico
             then (case dropWhile (\<lambda>c. c \<noteq> CHR ''.'') v of
                     [] \<Rightarrow> v
                   | _ # rest \<Rightarrow> takeWhile (\<lambda>c. c \<noteq> CHR ''.'') v @ CHR '','' # rest)
             else v);
        special = ((\<exists>xs ys. w = xs @ delim @ ys) \<or> dquote \<in> set w \<or> newline \<in> set w);
        quoted = dquote # concat (map (\<lambda>c. if c = dquote then [dquote, dquote] else [c]) w) @ [dquote]
    in csvCell delim dt v = (if special then quoted else w) \<and>
       (csvCell delim dt v = quoted) = special \<and>
       (csvCell delim dt v = w) = (\<not> special))"
proof -
  define w where "w = csvValue dt v"
  define special where
    "special = ((\<exists>xs ys. w = xs @ delim @ ys) \<or> dquote \<in> set w \<or> newline \<in> set w)"
  define quoted where
    "quoted = dquote # concat (map (\<lambda>c. if c = dquote then [dquote, dquote] else [c]) w) @ [dquote]"
  have n: "needsQuotes delim w = special"
    by (simp only: needsQuotes_def special_def includes_s_single includes_s_iff [of w delim])
  have q: "[dquote] @ doubleQuotes w @ [dquote] = quoted"
    by (simp add: quoted_def doubleQuotes_concat)
  have eq: "csvCell delim dt v = (if special then quoted else w)"
    using n q by (simp add: csvCell_def Let_def w_def)
  have "length w < length quoted"
    using doubleQuotes_length [of w] q [symmetric] by simp
  then have ne: "quoted \<noteq> w" by auto
  have "csvCell delim dt v = (if special then quoted else w) \<and>
       (csvCell delim dt v = quoted) = special \<and>
       (csvCell delim dt v = w) = (\<not> special)"
    using eq ne by auto
  then show ?thesis
    unfolding Let_def w_def special_def quoted_def csvValue_decimal_comma .
qed

lemma csvCell_needs_no_quotes: "csvCell '';'' (Some Alfanumerico) ''Maria Silva'' = ''Maria Silva''"
  by (simp add: csvCell_def csvValue_def needsQuotes_def dquote_def newline_def)

lemma csvCell_with_delimiter: "csvCell '';'' (Some Alfanumerico) ''a;b'' = [dquote] @ ''a;b'' @ [dquote]"
  by (simp add: csvCell_def csvValue_def needsQuotes_def dquote_def newline_def)

theorem C3_csv_quoting_witness:
  "csvCell '';'' (Some Alfanumerico) ''a;b'' = dquote # ''a;b'' @ [dquote] \<and>
   csvCell '';'' (Some Alfanumerico) ''ab'' = ''ab'' \<and>
   csvCell '','' (Some Numerico) ''1.50'' = dquote # ''1,50'' @ [dquote] \<and>
   csvCell '';'' (Some Numerico) ''1.50'' = ''1,50''"
  using C3_csv_quoting [of "Some Alfanumerico" "''a;b''" "'';''"]
    C3_csv_quoting [of "Some Alfanumerico" "''ab''" "'';''"]
    C3_csv_quoting [of "Some Numerico" "''1.50''" "'',''"]
    C3_csv_quoting [of "Some Numerico" "''1.50''" "'';''"]
  by (simp add: csvCell_def csvValue_def needsQuotes_def dquote_def newline_def)

text \<open>
  The claim as stated fails for a \<^verbatim>\<open>Numerico\<close> field.  The cell \<^verbatim>\<open>1,5\<close> resolves to the
  value \<^verbatim>\<open>1.50\<close>, which holds no comma, no double quote and no newline.  With the comma
  as delimiter it is emitted in quotes, and with the semicolon as delimiter it is emitted
  without quotes but not unchanged: in both cases as \<^verbatim>\<open>1,50\<close>.
\<close>

theorem C3_counterexample:
  "fst (mappedCellValue sampleParse valorMapping None ''1,5'') = ''1.50''
   \<and> \<not> needsQuotes '','' ''1.50''
   \<and> csvCell '','' (Some Numerico) ''1.50'' = [dquote] @ ''1,50'' @ [dquote]
   \<and> \<not> needsQuotes '';'' ''1.50''
   \<and> csvCell '';'' (Some Numerico) ''1.50'' = ''1,50''"
  by code_simp

section \<open>Properties of the schema operations\<close>

lemma renumber_length: "length (renumber fs) = length fs"
  by (simp add: renumber_def)

lemma map_int_fst_zip:
  "length xs = length ys \<Longrightarrow> map (\<lambda>p. int (fst p)) (zip xs ys) = map int xs"
  by (induction xs ys rule: list_induct2) simp_all

lemma renumber_orders: "map order_f (renumber fs) = map int [0..<length fs]"
proof -
  have "map order_f (renumber fs) = map (\<lambda>p. int (fst p)) (zip [0..<length fs] fs)"
    by (simp add: renumber_def enumerate_eq_zip case_prod_unfold comp_def)
  also have "\<dots> = map int [0..<length fs]"
    by (rule map_int_fst_zip) simp
  finally show ?thesis .
qed

lemma denseOrder_renumber: "denseOrder (renumber fs)"
  by (simp add: denseOrder_def renumber_orders renumber_length)

lemma denseOrder_Nil: "denseOrder []"
  by (simp add: denseOrder_def)

lemma kind_renumber: "g \<in> set (renumber xs) \<Longrightarrow> \<exists>g' \<in> set xs. kind g = kind g'"
  by (auto simp: renumber_def enumerate_eq_zip dest!: set_zip_rightD)

lemma set_sortByOrder: "set (sortByOrder xs) = set xs"
  by (simp add: sortByOrder_def)

lemma reconcileFields_keepCalculated:
  assumes "g \<in> set (reconcileFields stamp ms fmt prev)"
  shows "\<exists>g'. kind g = kind g' \<and> keepCalculated ms g'"
proof -
  from assms obtain g' where g': "kind g = kind g'"
    "g' \<in> set (filter (keepCalculated ms) (filter (keepMapped ms)
        (map (updateStatic ms fmt prev) (filter isStatic prev)
         @ map (updateCalculated ms fmt prev) (filter isCalculated prev)
         @ uniqueMappedFields stamp ms fmt prev)))"
    unfolding reconcileFields_def Let_def
    by (auto dest!: kind_renumber simp: set_sortByOrder)
  then show ?thesis by auto
qed

text \<open>
  Claim C7, as amended.  When reconciliation runs (the layout is the custom one, or the
  format is delimited), a calculated field other than \<^verbatim>\<open>FormatPeriodMMAAAA\<close> one of
  whose required field ids is carried by no column mapping is not in the reconciled schema.
\<close>

theorem C7_calculated_dropped:
  assumes "t \<noteq> FormatPeriodMMAAAA" and "r \<in> set req" and "\<not> hasMapping ms r"
    and "selectedLayoutPresetId = ''custom'' \<or> format_c cfg = CSV"
    and "f \<in> set (fields_c cfg)" and "kind f = Calculated t nm req ps"
  shows "\<forall>g \<in> set (fields_c (reconcileEffect stamp ms n selectedLayoutPresetId cfg)).
           kind g \<noteq> Calculated t nm req ps"
proof
  fix g assume g: "g \<in> set (fields_c (reconcileEffect stamp ms n selectedLayoutPresetId cfg))"
  have ne: "fields_c cfg \<noteq> []" using assms(5) by auto
  have "format_c cfg = CSV \<Longrightarrow> format_c cfg \<noteq> TXT" by simp
  with assms(4) ne
  have "reconcileEffect stamp ms n selectedLayoutPresetId cfg = reconcile stamp ms cfg"
    by (auto simp: reconcileEffect_def)
  with g have "g \<in> set (reconcileFields stamp ms (format_c cfg) (fields_c cfg))"
    by (simp add: reconcile_def)
  then obtain g' where g': "kind g = kind g'" "keepCalculated ms g'"
    using reconcileFields_keepCalculated by blast
  show "kind g \<noteq> Calculated t nm req ps"
  proof
    assume "kind g = Calculated t nm req ps"
    with g'(1) have "kind g' = Calculated t nm req ps" by simp
    with g'(2) assms(1) have "list_all (hasMapping ms) req"
      by (simp add: keepCalculated_def)
    with assms(2,3) show False by (simp add: list_all_iff)
  qed
qed

theorem C7_calculated_dropped_witness:
  "CalculateSituacaoRetorno \<noteq> FormatPeriodMMAAAA
   \<and> ''valor_realizado'' \<in> set [''valor_realizado'']
   \<and> \<not> hasMapping [nomeMapping] ''valor_realizado''
   \<and> situacaoField \<in> set (fields_c exampleConfig)
   \<and> kind situacaoField = Calculated CalculateSituacaoRetorno ''Situacao'' [''valor_realizado''] []
   \<and> list_all (\<lambda>g. kind g \<noteq> Calculated CalculateSituacaoRetorno ''Situacao'' [''valor_realizado''] [])
        (fields_c (reconcileEffect exampleStamp [nomeMapping] 1 ''custom'' exampleConfig))"
proof -
  have h1: "CalculateSituacaoRetorno \<noteq> FormatPeriodMMAAAA" by simp
  have h2: "''valor_realizado'' \<in> set [''valor_realizado'']" by simp
  have h3: "\<not> hasMapping [nomeMapping] ''valor_realizado''"
    by (simp add: hasMapping_def nomeMapping_def)
  have h4: "''custom'' = ''custom'' \<or> format_c exampleConfig = CSV" by simp
  have h5: "situacaoField \<in> set (fields_c exampleConfig)" by (simp add: exampleConfig_def)
  have h6: "kind situacaoField = Calculated CalculateSituacaoRetorno ''Situacao'' [''valor_realizado''] []"
    by (simp add: situacaoField_def)
  from C7_calculated_dropped [OF h1 h2 h3 h4 h5 h6, of exampleStamp 1]
  have "list_all (\<lambda>g. kind g \<noteq> Calculated CalculateSituacaoRetorno ''Situacao'' [''valor_realizado''] [])
        (fields_c (reconcileEffect exampleStamp [nomeMapping] 1 ''custom'' exampleConfig))"
    by (simp add: list_all_iff)
  with h1 h2 h3 h5 h6 show ?thesis by simp
qed

text \<open>The claim as stated fails for a \<^verbatim>\<open>FormatPeriodMMAAAA\<close> field: its required
  \<open>periodo\<close> column is unmapped and the field stays.\<close>

theorem C7_counterexample:
  "\<not> hasMapping [nomeMapping] ''periodo''
   \<and> fields_c (reconcileEffect exampleStamp [nomeMapping] 1 ''custom'' exampleConfig)
      = [nomeField, periodoField\<lparr>order_f := 1\<rparr>]"
  by code_simp

text \<open>
  Claim C10.  Removing a field, moving a field up or down, and schema reconciliation each
  preserve the invariant that the \<^verbatim>\<open>order\<close> values are 0..n-1 and agree with the
  positions of the fields in the array.
\<close>

theorem C10_order_dense:
  assumes "denseOrder (fields_c cfg)"
  shows "denseOrder (fields_c (removeOutputField i cfg))
       \<and> denseOrder (fields_c (moveField i d cfg))
       \<and> denseOrder (fields_c (reconcileEffect stamp ms n p cfg))"
proof (intro conjI)
  show "denseOrder (fields_c (removeOutputField i cfg))"
    by (simp add: removeOutputField_def Let_def denseOrder_renumber)
  show "denseOrder (fields_c (moveField i d cfg))"
    using assms
    by (simp add: moveField_def Let_def denseOrder_renumber split: option.splits)
  show "denseOrder (fields_c (reconcileEffect stamp ms n p cfg))"
    using assms
    by (simp add: reconcileEffect_def reconcile_def reconcileFields_def Let_def denseOrder_renumber
        denseOrder_Nil)
qed

theorem C10_order_dense_witness:
  "denseOrder (fields_c exampleConfig)
   \<and> denseOrder (fields_c (removeOutputField ''mapped-nome-1'' exampleConfig))
   \<and> denseOrder (fields_c (moveField ''calc-periodo-1'' Up exampleConfig))
   \<and> denseOrder (fields_c (reconcileEffect exampleStamp [nomeMapping] 1 ''custom'' exampleConfig))"
proof -
  have h: "denseOrder (fields_c exampleConfig)" by code_simp
  from C10_order_dense [OF h, where i = "''mapped-nome-1''" and d = Up and stamp = exampleStamp
      and ms = "[nomeMapping]" and n = 1 and p = "''custom''"]
    C10_order_dense [OF h, where i = "''calc-periodo-1''" and d = Up and stamp = exampleStamp
      and ms = "[nomeMapping]" and n = 1 and p = "''custom''"] h
  show ?thesis by simp
qed

lemma moveField_example:
  "map id_f (fields_c (moveField ''calc-periodo-1'' Up exampleConfig))
     = [''mapped-nome-1'', ''calc-periodo-1'', ''calc-situacao-1'']"
  by code_simp

section \<open>Reconciliation is idempotent\<close>

lemma update_fresh: "k \<notin> fst ` set al \<Longrightarrow> AList.update k v al = al @ [(k, v)]"
  by (induction al) auto

lemma keysOf_Nil: "keysOf [] = []"
  by (simp add: keysOf_def)

lemma keysOf_Cons:
  "keysOf (f # fs) = (case kind f of Mapped k \<Rightarrow> [k] | _ \<Rightarrow> []) @ keysOf fs"
  by (simp add: keysOf_def)

lemma keysOf_append: "keysOf (xs @ ys) = keysOf xs @ keysOf ys"
  by (simp add: keysOf_def)

lemma fold_seedUnique_distinct:
  assumes "distinct (keysOf fs)" and "[] \<notin> set (keysOf fs)"
    and "set (keysOf fs) \<inter> fst ` set al = {}"
  shows "fold seedUnique fs al = al @ pairsOf fs"
  using assms
proof (induction fs arbitrary: al)
  case Nil
  show ?case by (simp add: pairsOf_def)
next
  case (Cons f fs)
  show ?case
  proof (cases "kind f")
    case (Mapped k)
    with Cons.prems have k: "k \<noteq> []" "k \<notin> fst ` set al" "k \<notin> set (keysOf fs)"
      "distinct (keysOf fs)" "[] \<notin> set (keysOf fs)"
      by (auto simp: keysOf_Cons)
    then have s: "seedUnique f al = al @ [(k, f)]"
      by (simp add: seedUnique_def Mapped update_fresh)
    have "set (keysOf fs) \<inter> fst ` set (al @ [(k, f)]) = {}"
      using Cons.prems(3) k(3) by (auto simp: keysOf_Cons Mapped)
    with Cons.IH [of "al @ [(k, f)]"] k(4,5)
    show ?thesis by (simp add: s Mapped pairsOf_def)
  next
    case (Static a b)
    with Cons.prems have "distinct (keysOf fs)" "[] \<notin> set (keysOf fs)"
      "set (keysOf fs) \<inter> fst ` set al = {}"
      by (auto simp: keysOf_Cons)
    with Cons.IH [of al] show ?thesis by (simp add: seedUnique_def Static pairsOf_def)
  next
    case (Calculated a b c d)
    with Cons.prems have "distinct (keysOf fs)" "[] \<notin> set (keysOf fs)"
      "set (keysOf fs) \<inter> fst ` set al = {}"
      by (auto simp: keysOf_Cons)
    with Cons.IH [of al] show ?thesis by (simp add: seedUnique_def Calculated pairsOf_def)
  qed
qed

lemma pairsOf_snd: "map snd (pairsOf fs) = filter isMapped fs"
  by (induction fs) (auto simp: pairsOf_def isMapped_def split: FieldKind.splits)

lemma pairsOf_fst: "map fst (pairsOf fs) = keysOf fs"
  by (induction fs) (auto simp: pairsOf_def keysOf_def split: FieldKind.splits)

lemma pairsOf_mem: "(k, f) \<in> set (pairsOf fs) \<longleftrightarrow> f \<in> set fs \<and> kind f = Mapped k"
  by (induction fs) (auto simp: pairsOf_def split: FieldKind.splits)

lemma fold_mergePotential_id:
  assumes "\<And>p k. p \<in> set ps \<Longrightarrow> kind p = Mapped k \<Longrightarrow>
            k = [] \<or> (\<exists>e. map_of al k = Some e \<and> refreshExisting ms fmt k e = e)"
  shows "fold (mergePotential ms fmt) ps al = al"
  using assms
proof (induction ps)
  case Nil
  show ?case by simp
next
  case (Cons p ps)
  have "mergePotential ms fmt p al = al"
  proof (cases "kind p")
    case (Mapped k)
    from Cons.prems [of p k] Mapped
    consider "k = []" | e where "map_of al k = Some e" "refreshExisting ms fmt k e = e"
      by auto
    then show ?thesis
    proof cases
      case 1
      then show ?thesis by (simp add: mergePotential_def Mapped)
    next
      case 2
      then show ?thesis by (simp add: mergePotential_def Mapped update_triv)
    qed
  qed (simp_all add: mergePotential_def)
  moreover have "fold (mergePotential ms fmt) ps al = al"
    using Cons.prems by (intro Cons.IH) auto
  ultimately show ?case by simp
qed

lemma kind_baseField: "kind (baseField stamp ms fmt prev i mf m) = Mapped mf"
  by (simp add: baseField_def Let_def)

lemma potential_mem:
  assumes "p \<in> set (potentialMappedFields stamp ms fmt prev)"
  shows "\<exists>i mf m. p = baseField stamp ms fmt prev i mf m \<and> m \<in> set ms \<and> mappedField m = Some mf"
proof -
  from assms obtain i mf m where p: "p = baseField stamp ms fmt prev i mf m"
    and "(i, mf, m) \<in> set (enumerate 0 (List.map_filter (\<lambda>m. map_option (\<lambda>mf. (mf, m)) (mappedField m)) ms))"
    by (auto simp: potentialMappedFields_def)
  then have "(mf, m) \<in> set (List.map_filter (\<lambda>m. map_option (\<lambda>mf. (mf, m)) (mappedField m)) ms)"
    by (auto simp: enumerate_eq_zip dest: set_zip_rightD)
  then have "m \<in> set ms \<and> mappedField m = Some mf"
    by (auto simp: map_filter_def)
  with p show ?thesis by blast
qed

lemma uniqueMappedFields_reconciled:
  assumes "schemaReconciled ms fmt s"
  shows "uniqueMappedFields stamp ms fmt s = filter isMapped s"
proof -
  from assms have d: "distinct (keysOf s)"
    and fr: "\<And>f. f \<in> set s \<Longrightarrow> fieldReconciled ms fmt f"
    and cov: "\<And>m k. m \<in> set ms \<Longrightarrow> mappedField m = Some k \<Longrightarrow> k = [] \<or> k \<in> set (keysOf s)"
    by (auto simp: schemaReconciled_def list_all_iff split: option.splits)
  have ne: "[] \<notin> set (keysOf s)"
  proof
    assume "[] \<in> set (keysOf s)"
    then obtain f where "f \<in> set s" "kind f = Mapped []"
      by (auto simp: pairsOf_fst [symmetric] pairsOf_mem)
    with fr [of f] show False by (simp add: fieldReconciled_def)
  qed
  have seed: "fold seedUnique s [] = pairsOf s"
    using fold_seedUnique_distinct [OF d ne, of "[]"] by simp
  have "fold (mergePotential ms fmt) (potentialMappedFields stamp ms fmt s) (pairsOf s) = pairsOf s"
  proof (rule fold_mergePotential_id)
    fix p k assume p: "p \<in> set (potentialMappedFields stamp ms fmt s)" and k: "kind p = Mapped k"
    from potential_mem [OF p] k obtain m where m: "m \<in> set ms" "mappedField m = Some k"
      by (auto simp: kind_baseField)
    show "k = [] \<or> (\<exists>e. map_of (pairsOf s) k = Some e \<and> refreshExisting ms fmt k e = e)"
    proof (cases "k = []")
      case False
      with cov [OF m] have "k \<in> fst ` set (pairsOf s)"
        by (simp add: pairsOf_fst [symmetric])
      then obtain e where e: "map_of (pairsOf s) k = Some e"
        by (metis domD dom_map_of_conv_image_fst)
      then have "(k, e) \<in> set (pairsOf s)" by (rule map_of_SomeD)
      then have "e \<in> set s" "kind e = Mapped k" by (simp_all add: pairsOf_mem)
      with fr [of e] have "refreshExisting ms fmt k e = e"
        by (simp add: fieldReconciled_def)
      with e show ?thesis by blast
    qed simp
  qed
  with seed show ?thesis
    by (simp add: uniqueMappedFields_def pairsOf_snd)
qed

lemma updateStatic_settled:
  assumes "settled fmt f"
  shows "updateStatic ms fmt prev f = f"
  using assms
  by (cases "fmt = TXT") (auto simp: updateStatic_def settled_def Let_def orElse_def)

lemma updateCalculated_settled:
  assumes "settled fmt f" and "if isDateFieldCalc (kind f) then dateFormat f \<noteq> None else True"
  shows "updateCalculated ms fmt prev f = f"
  using assms
  by (cases "fmt = TXT"; cases "isDateFieldCalc (kind f)")
     (auto simp: updateCalculated_def settled_def Let_def orElse_def)

lemma mset_by_kind:
  "mset (filter isStatic s @ filter isCalculated s @ filter isMapped s) = mset s"
  by (induction s) (auto simp: isStatic_def isCalculated_def isMapped_def split: FieldKind.splits)

lemma filter_same_key:
  "distinct (map f xs) \<Longrightarrow> k \<in> set xs \<Longrightarrow> filter (\<lambda>x. f k = f x) xs = [k]"
proof (induction xs)
  case Nil
  then show ?case by simp
next
  case (Cons x xs)
  show ?case
  proof (cases "k = x")
    case True
    with Cons.prems have "\<And>y. y \<in> set xs \<Longrightarrow> f x \<noteq> f y" by auto
    then have "filter (\<lambda>y. f x = f y) xs = []" by (simp add: filter_empty_conv)
    with True show ?thesis by simp
  next
    case False
    with Cons.prems have "k \<in> set xs" "f k \<noteq> f x" "distinct (map f xs)"
      by (auto simp: image_iff)
    with Cons.IH show ?thesis by simp
  qed
qed

lemma denseOrder_distinct: "denseOrder s \<Longrightarrow> distinct (map order_f s)"
  by (simp add: denseOrder_def distinct_map inj_on_def)

lemma denseOrder_sorted: "denseOrder s \<Longrightarrow> sorted (map order_f s)"
  by (simp add: denseOrder_def sorted_map sorted_wrt_iff_nth_less)

lemma sortByOrder_by_kind:
  assumes "denseOrder s"
  shows "sortByOrder (filter isStatic s @ filter isCalculated s @ filter isMapped s) = s"
  unfolding sortByOrder_def
proof (rule properties_for_sort_key)
  let ?c = "filter isStatic s @ filter isCalculated s @ filter isMapped s"
  show m: "mset s = mset ?c" by (simp only: mset_by_kind)
  show "sorted (map order_f s)" using assms by (rule denseOrder_sorted)
  fix k assume k: "k \<in> set s"
  have ds: "distinct (map order_f s)" using assms by (rule denseOrder_distinct)
  have "mset (map order_f ?c) = mset (map order_f s)"
    using m by (metis mset_map)
  then have dc: "distinct (map order_f ?c)"
    using ds by (metis mset_eq_imp_distinct_iff)
  have kc: "k \<in> set ?c" using k m by (metis mset_eq_setD)
  show "filter (\<lambda>x. order_f k = order_f x) s = filter (\<lambda>x. order_f k = order_f x) ?c"
    using filter_same_key [OF ds k] filter_same_key [OF dc kc] by simp
qed

lemma renumber_dense:
  assumes "denseOrder s"
  shows "renumber s = s"
proof (rule nth_equalityI)
  show "length (renumber s) = length s" by (simp add: renumber_def)
  fix i assume "i < length (renumber s)"
  then have i: "i < length s" by (simp add: renumber_def)
  from assms have "map order_f s ! i = map int [0..<length s] ! i"
    by (simp add: denseOrder_def)
  with i have "order_f (s ! i) = int i" by simp
  with i show "renumber s ! i = s ! i"
    by (simp add: renumber_def nth_enumerate_eq)
qed

lemma reconcileFields_fixpoint:
  assumes "schemaReconciled ms fmt s"
  shows "reconcileFields stamp ms fmt s = s"
proof -
  from assms have dense: "denseOrder s"
    and fr: "\<And>f. f \<in> set s \<Longrightarrow> fieldReconciled ms fmt f"
    by (auto simp: schemaReconciled_def list_all_iff)
  have st: "map (updateStatic ms fmt s) (filter isStatic s) = filter isStatic s"
  proof (rule map_idI)
    fix f assume "f \<in> set (filter isStatic s)"
    then have "fieldReconciled ms fmt f" "isStatic f" using fr by auto
    then have "settled fmt f"
      by (auto simp: fieldReconciled_def isStatic_def split: FieldKind.splits)
    then show "updateStatic ms fmt s f = f" by (rule updateStatic_settled)
  qed
  have ca: "map (updateCalculated ms fmt s) (filter isCalculated s) = filter isCalculated s"
  proof (rule map_idI)
    fix f assume "f \<in> set (filter isCalculated s)"
    then have "fieldReconciled ms fmt f" "isCalculated f" using fr by auto
    then have "settled fmt f" "if isDateFieldCalc (kind f) then dateFormat f \<noteq> None else True"
      by (auto simp: fieldReconciled_def isCalculated_def split: FieldKind.splits)
    then show "updateCalculated ms fmt s f = f" by (rule updateCalculated_settled)
  qed
  have un: "uniqueMappedFields stamp ms fmt s = filter isMapped s"
    using assms by (rule uniqueMappedFields_reconciled)
  let ?c = "filter isStatic s @ filter isCalculated s @ filter isMapped s"
  have "\<And>f. f \<in> set ?c \<Longrightarrow> keepMapped ms f"
  proof -
    fix f assume "f \<in> set ?c"
    then have "f \<in> set s" by auto
    from fr [OF this] show "keepMapped ms f"
      by (auto simp: keepMapped_def fieldReconciled_def isStatic_def isCalculated_def
          split: FieldKind.splits)
  qed
  then have k1: "filter (keepMapped ms) ?c = ?c" by (simp only: filter_id_conv) blast
  have "\<And>f. f \<in> set ?c \<Longrightarrow> keepCalculated ms f"
  proof -
    fix f assume "f \<in> set ?c"
    then have "f \<in> set s" by auto
    from fr [OF this] show "keepCalculated ms f"
      by (auto simp: fieldReconciled_def keepCalculated_def split: FieldKind.splits)
  qed
  then have k2: "filter (keepCalculated ms) ?c = ?c" by (simp only: filter_id_conv) blast
  have "reconcileFields stamp ms fmt s = renumber (sortByOrder ?c)"
    unfolding reconcileFields_def Let_def st ca un k1 k2 ..
  also have "\<dots> = s"
    using dense by (simp only: sortByOrder_by_kind renumber_dense)
  finally show ?thesis .
qed

lemma wfUnique_Nil: "wfUnique []"
  by (simp add: wfUnique_def)

lemma wfUnique_map_of:
  "wfUnique al \<Longrightarrow> map_of al k = Some v \<Longrightarrow> kind v = Mapped k \<and> k \<noteq> []"
  by (auto simp: wfUnique_def list_all_iff dest: map_of_SomeD)

lemma set_update_subset: "set (AList.update k v al) \<subseteq> insert (k, v) (set al)"
  by (induction al) auto

lemma wfUnique_update:
  assumes "wfUnique al" and "kind v = Mapped k" and "k \<noteq> []"
  shows "wfUnique (AList.update k v al)"
proof -
  from assms(1) have "distinct (map fst (AList.update k v al))"
    by (simp add: wfUnique_def distinct_update)
  moreover have "\<And>a b. (a, b) \<in> set (AList.update k v al) \<Longrightarrow> kind b = Mapped a \<and> a \<noteq> []"
  proof -
    fix a b assume "(a, b) \<in> set (AList.update k v al)"
    with set_update_subset [of k v al] have "(a, b) = (k, v) \<or> (a, b) \<in> set al" by auto
    with assms show "kind b = Mapped a \<and> a \<noteq> []"
      by (auto simp: wfUnique_def list_all_iff)
  qed
  ultimately show ?thesis by (auto simp: wfUnique_def list_all_iff)
qed

lemma kind_refreshExisting: "kind (refreshExisting ms fmt k e) = kind e"
  by (simp add: refreshExisting_def Let_def)

lemma wfUnique_seedUnique: "wfUnique al \<Longrightarrow> wfUnique (seedUnique f al)"
  by (auto simp: seedUnique_def intro: wfUnique_update split: FieldKind.splits)

lemma wfUnique_fold_seedUnique: "wfUnique al \<Longrightarrow> wfUnique (fold seedUnique fs al)"
  by (induction fs arbitrary: al) (simp_all add: wfUnique_seedUnique)

lemma wfUnique_mergePotential:
  assumes "wfUnique al"
  shows "wfUnique (mergePotential ms fmt p al)"
proof (cases "kind p")
  case (Mapped k)
  show ?thesis
  proof (cases "k = []")
    case True
    with assms Mapped show ?thesis by (simp add: mergePotential_def)
  next
    case False
    show ?thesis
    proof (cases "map_of al k")
      case None
      with assms Mapped False show ?thesis
        by (simp add: mergePotential_def wfUnique_update)
    next
      case (Some e)
      with assms have "kind e = Mapped k" by (auto dest: wfUnique_map_of)
      then have "kind (refreshExisting ms fmt k e) = Mapped k"
        by (simp add: kind_refreshExisting)
      with assms Mapped False Some show ?thesis
        by (simp add: mergePotential_def wfUnique_update)
    qed
  qed
qed (use assms in \<open>simp_all add: mergePotential_def\<close>)

lemma refreshExisting_idem:
  "refreshExisting ms fmt k (refreshExisting ms fmt k e) = refreshExisting ms fmt k e"
  by (simp add: refreshExisting_def Let_def orElse_def)

lemma refreshExisting_baseField:
  assumes "findMapping ms k = Some m"
  shows "refreshExisting ms fmt k (baseField stamp ms fmt prev i k m)
         = baseField stamp ms fmt prev i k m"
  using assms by (simp add: refreshExisting_def baseField_def Let_def orElse_def)

lemma find_append_first:
  "find P (xs @ ys) = (case find P xs of None \<Rightarrow> find P ys | Some x \<Rightarrow> Some x)"
  by (induction xs) auto

lemma findMapping_mappedPairs:
  "findMapping ms k = map_option snd (find (\<lambda>p. fst p = k) (mappedPairs ms))"
  unfolding findMapping_def mappedPairs_def
  by (induction ms) (auto simp: map_filter_simps split: option.splits)

lemma findMapping_first:
  assumes "mappedPairs ms = l1 @ (k, m) # l2" and "k \<notin> fst ` set l1"
  shows "findMapping ms k = Some m"
proof -
  from assms(2) have "find (\<lambda>p. fst p = k) l1 = None"
    by (force simp: find_None_iff)
  then show ?thesis
    by (simp add: findMapping_mappedPairs assms(1) find_append_first)
qed

lemma potentialMappedFields_pairs:
  "potentialMappedFields stamp ms fmt prev
   = map (\<lambda>(i, mf, m). baseField stamp ms fmt prev i mf m) (enumerate 0 (mappedPairs ms))"
  by (simp add: potentialMappedFields_def mappedPairs_def)

lemma mappedPairs_mem: "(k, m) \<in> set (mappedPairs ms) \<longleftrightarrow> m \<in> set ms \<and> mappedField m = Some k"
  unfolding mappedPairs_def
  by (induction ms) (auto simp: map_filter_simps split: option.splits)

lemma hasMapping_pairs: "hasMapping ms k \<longleftrightarrow> k \<in> fst ` set (mappedPairs ms)"
proof -
  have "k \<in> fst ` set (mappedPairs ms) \<longleftrightarrow> (\<exists>m. (k, m) \<in> set (mappedPairs ms))"
    by force
  then show ?thesis
    by (auto simp: hasMapping_def list_ex_iff mappedPairs_mem)
qed

lemma merge_prefix:
  assumes wf0: "wfUnique al0"
  shows "mappedPairs ms = l1 @ l2 \<Longrightarrow>
    wfUnique (fold (mergePotential ms fmt)
      (map (\<lambda>(i, mf, m). baseField stamp ms fmt prev i mf m) (enumerate 0 l1)) al0)
    \<and> (\<forall>k \<in> fst ` set l1. k \<noteq> [] \<longrightarrow>
          map_of (fold (mergePotential ms fmt)
            (map (\<lambda>(i, mf, m). baseField stamp ms fmt prev i mf m) (enumerate 0 l1)) al0) k \<noteq> None)
    \<and> (\<forall>k v. map_of (fold (mergePotential ms fmt)
            (map (\<lambda>(i, mf, m). baseField stamp ms fmt prev i mf m) (enumerate 0 l1)) al0) k = Some v
          \<longrightarrow> k \<in> fst ` set l1 \<longrightarrow> refreshExisting ms fmt k v = v)"
proof (induction l1 arbitrary: l2 rule: rev_induct)
  case Nil
  show ?case using wf0 by simp
next
  case (snoc x l1)
  obtain k m where x: "x = (k, m)" by (cases x)
  define al where "al = fold (mergePotential ms fmt)
      (map (\<lambda>(i, mf, m). baseField stamp ms fmt prev i mf m) (enumerate 0 l1)) al0"
  define p where "p = baseField stamp ms fmt prev (length l1) k m"
  define al' where "al' = mergePotential ms fmt p al"
  have split: "mappedPairs ms = l1 @ (k, m) # l2" using snoc.prems x by simp
  from snoc.IH [OF this]
  have wf: "wfUnique al"
    and cov: "\<And>k'. k' \<in> fst ` set l1 \<Longrightarrow> k' \<noteq> [] \<Longrightarrow> map_of al k' \<noteq> None"
    and fx: "\<And>k' v. map_of al k' = Some v \<Longrightarrow> k' \<in> fst ` set l1 \<Longrightarrow> refreshExisting ms fmt k' v = v"
    unfolding al_def by blast+
  have fold_eq: "fold (mergePotential ms fmt)
      (map (\<lambda>(i, mf, m). baseField stamp ms fmt prev i mf m) (enumerate 0 (l1 @ [x]))) al0 = al'"
    by (simp add: enumerate_append_eq al'_def al_def p_def x)
  have kp: "kind p = Mapped k" by (simp add: p_def kind_baseField)
  have wf': "wfUnique al'" unfolding al'_def using wf by (rule wfUnique_mergePotential)
  have rest: "(\<forall>k' \<in> fst ` set (l1 @ [x]). k' \<noteq> [] \<longrightarrow> map_of al' k' \<noteq> None)
    \<and> (\<forall>k' v. map_of al' k' = Some v \<longrightarrow> k' \<in> fst ` set (l1 @ [x]) \<longrightarrow> refreshExisting ms fmt k' v = v)"
  proof (cases "k = []")
    case True
    then have eq: "al' = al" by (simp add: al'_def mergePotential_def kp)
    have "\<And>k' v. map_of al k' = Some v \<Longrightarrow> k' \<noteq> []"
      using wf by (auto dest: wfUnique_map_of)
    with cov fx True show ?thesis unfolding eq x by auto
  next
    case False
    show ?thesis
    proof (cases "map_of al k")
      case None
      then have m': "map_of al' = (map_of al)(k \<mapsto> p)"
        using False by (simp add: al'_def mergePotential_def kp update_conv')
      have "k \<notin> fst ` set l1" using cov [of k] None False by auto
      with split have "findMapping ms k = Some m" by (rule findMapping_first)
      then have "refreshExisting ms fmt k p = p"
        unfolding p_def by (rule refreshExisting_baseField)
      with cov fx show ?thesis unfolding m' x by (auto split: if_splits)
    next
      case (Some e)
      then have m': "map_of al' = (map_of al)(k \<mapsto> refreshExisting ms fmt k e)"
        using False by (simp add: al'_def mergePotential_def kp update_conv')
      from cov fx show ?thesis unfolding m' x
        by (auto simp: refreshExisting_idem split: if_splits)
    qed
  qed
  show ?case unfolding fold_eq using wf' rest by blast
qed

lemma uniqueMap_props:
  fixes stamp ms fmt prev
  defines "al \<equiv> fold (mergePotential ms fmt) (potentialMappedFields stamp ms fmt prev)
                  (fold seedUnique prev [])"
  shows "wfUnique al"
    and "\<And>k. hasMapping ms k \<Longrightarrow> k \<noteq> [] \<Longrightarrow> map_of al k \<noteq> None"
    and "\<And>k v. map_of al k = Some v \<Longrightarrow> hasMapping ms k \<Longrightarrow> refreshExisting ms fmt k v = v"
proof -
  have wf0: "wfUnique (fold seedUnique prev [])"
    by (rule wfUnique_fold_seedUnique) (rule wfUnique_Nil)
  have "mappedPairs ms = mappedPairs ms @ []" by simp
  from merge_prefix [OF wf0 this, of fmt stamp prev]
  have a: "wfUnique al"
    and b: "\<forall>k \<in> fst ` set (mappedPairs ms). k \<noteq> [] \<longrightarrow> map_of al k \<noteq> None"
    and c: "\<forall>k v. map_of al k = Some v \<longrightarrow> k \<in> fst ` set (mappedPairs ms) \<longrightarrow> refreshExisting ms fmt k v = v"
    unfolding al_def potentialMappedFields_pairs by blast+
  show "wfUnique al" by (rule a)
  show "\<And>k. hasMapping ms k \<Longrightarrow> k \<noteq> [] \<Longrightarrow> map_of al k \<noteq> None"
    using b unfolding hasMapping_pairs by blast
  show "\<And>k v. map_of al k = Some v \<Longrightarrow> hasMapping ms k \<Longrightarrow> refreshExisting ms fmt k v = v"
    using c unfolding hasMapping_pairs by blast
qed

lemma keysOf_keyOf: "keysOf fs = map keyOf (filter isMapped fs)"
  by (induction fs) (auto simp: keysOf_def keyOf_def isMapped_def split: FieldKind.splits)

lemma keysOf_cong_kind: "map kind xs = map kind ys \<Longrightarrow> keysOf xs = keysOf ys"
proof (induction xs arbitrary: ys)
  case Nil
  then show ?case by (simp add: keysOf_def)
next
  case (Cons x xs)
  then obtain y ys' where ys: "ys = y # ys'" by (cases ys) auto
  with Cons.prems have "kind x = kind y" "map kind xs = map kind ys'" by auto
  with Cons.IH [of ys'] show ?case by (simp add: keysOf_Cons ys)
qed

lemma map_snd_zip_fun:
  "length xs = length ys \<Longrightarrow> map (\<lambda>p. f (snd p)) (zip xs ys) = map f ys"
  by (induction xs ys rule: list_induct2) simp_all

lemma map_kind_renumber: "map kind (renumber xs) = map kind xs"
proof -
  have "map kind (renumber xs) = map (\<lambda>p. kind (snd p)) (zip [0..<length xs] xs)"
    by (simp add: renumber_def enumerate_eq_zip case_prod_unfold comp_def)
  also have "\<dots> = map kind xs"
    by (rule map_snd_zip_fun) simp
  finally show ?thesis .
qed

lemma keysOf_renumber: "keysOf (renumber xs) = keysOf xs"
  by (rule keysOf_cong_kind) (rule map_kind_renumber)

lemma mset_keysOf_sortByOrder: "mset (keysOf (sortByOrder xs)) = mset (keysOf xs)"
  by (simp add: keysOf_keyOf sortByOrder_def)

lemma keysOf_filter_distinct: "distinct (keysOf xs) \<Longrightarrow> distinct (keysOf (filter P xs))"
proof -
  assume "distinct (keysOf xs)"
  then have "distinct (map keyOf (filter P (filter isMapped xs)))"
    unfolding keysOf_keyOf by (rule distinct_map_filter)
  moreover have "filter P (filter isMapped xs) = filter isMapped (filter P xs)"
    by (simp add: conj_commute)
  ultimately show ?thesis by (simp add: keysOf_keyOf)
qed

lemma keysOf_no_mapped: "(\<And>f. f \<in> set xs \<Longrightarrow> \<not> isMapped f) \<Longrightarrow> keysOf xs = []"
  by (simp add: keysOf_keyOf filter_empty_conv)

lemma keysOf_unique: "wfUnique al \<Longrightarrow> keysOf (map snd al) = map fst al"
  by (induction al) (auto simp: wfUnique_def keysOf_def)

lemma kind_updateStatic: "kind (updateStatic ms fmt prev f) = kind f"
  by (simp add: updateStatic_def Let_def)

lemma kind_updateCalculated: "kind (updateCalculated ms fmt prev f) = kind f"
  by (simp add: updateCalculated_def Let_def)

lemma settled_updateStatic: "settled fmt (updateStatic ms fmt prev f)"
  by (simp add: updateStatic_def settled_def Let_def)

lemma settled_updateCalculated: "settled fmt (updateCalculated ms fmt prev f)"
  by (simp add: updateCalculated_def settled_def Let_def)

lemma date_updateCalculated:
  "isDateFieldCalc (kind f) \<Longrightarrow> dateFormat (updateCalculated ms fmt prev f) \<noteq> None"
  by (simp add: updateCalculated_def Let_def)

lemma refreshExisting_order:
  "refreshExisting ms fmt k (f\<lparr>order_f := i\<rparr>) = (refreshExisting ms fmt k f)\<lparr>order_f := i\<rparr>"
  by (simp add: refreshExisting_def Let_def)

lemma fieldReconciled_order:
  assumes "fieldReconciled ms fmt f"
  shows "fieldReconciled ms fmt (f\<lparr>order_f := i\<rparr>)"
proof (cases "kind f")
  case (Mapped k)
  with assms have "refreshExisting ms fmt k f = f" "k \<noteq> []" "hasMapping ms k"
    by (simp_all add: fieldReconciled_def)
  then show ?thesis
    by (simp add: fieldReconciled_def Mapped refreshExisting_order)
next
  case (Static a b)
  with assms show ?thesis by (simp add: fieldReconciled_def settled_def)
next
  case (Calculated a b c d)
  with assms show ?thesis
    by (simp add: fieldReconciled_def settled_def keepCalculated_def)
qed

lemma renumber_mem: "g \<in> set (renumber xs) \<Longrightarrow> \<exists>f \<in> set xs. \<exists>i. g = f\<lparr>order_f := i\<rparr>"
  by (auto simp: renumber_def enumerate_eq_zip dest!: set_zip_rightD)

lemma reconcileFields_reconciled: "schemaReconciled ms fmt (reconcileFields stamp ms fmt prev)"
proof -
  define al where "al = fold (mergePotential ms fmt) (potentialMappedFields stamp ms fmt prev)
                  (fold seedUnique prev [])"
  define S where "S = map (updateStatic ms fmt prev) (filter isStatic prev)"
  define C where "C = map (updateCalculated ms fmt prev) (filter isCalculated prev)"
  define U where "U = map snd al"
  define X where "X = filter (keepCalculated ms) (filter (keepMapped ms) (S @ C @ U))"
  have R: "reconcileFields stamp ms fmt prev = renumber (sortByOrder X)"
    by (simp add: reconcileFields_def Let_def X_def S_def C_def U_def al_def uniqueMappedFields_def)
  have wf: "wfUnique al"
    unfolding al_def by (rule uniqueMap_props(1))
  have cov: "\<And>k. hasMapping ms k \<Longrightarrow> k \<noteq> [] \<Longrightarrow> map_of al k \<noteq> None"
    unfolding al_def by (rule uniqueMap_props(2))
  have fx: "\<And>k v. map_of al k = Some v \<Longrightarrow> hasMapping ms k \<Longrightarrow> refreshExisting ms fmt k v = v"
    unfolding al_def by (rule uniqueMap_props(3))
  have S_kind: "\<And>f. f \<in> set S \<Longrightarrow> isStatic f \<and> settled fmt f"
    by (auto simp: S_def isStatic_def kind_updateStatic settled_updateStatic)
  have C_kind: "\<And>f. f \<in> set C \<Longrightarrow> isCalculated f \<and> settled fmt f
      \<and> (if isDateFieldCalc (kind f) then dateFormat f \<noteq> None else True)"
  proof -
    fix f assume "f \<in> set C"
    then obtain f0 where f: "f = updateCalculated ms fmt prev f0" and c: "isCalculated f0"
      by (auto simp: C_def)
    have "isDateFieldCalc (kind f) \<Longrightarrow> dateFormat f \<noteq> None"
      unfolding f by (simp add: kind_updateCalculated date_updateCalculated)
    with c show "isCalculated f \<and> settled fmt f
      \<and> (if isDateFieldCalc (kind f) then dateFormat f \<noteq> None else True)"
      by (simp add: f isCalculated_def kind_updateCalculated settled_updateCalculated)
  qed
  have U_mem: "\<And>v. v \<in> set U \<Longrightarrow> \<exists>k. map_of al k = Some v \<and> kind v = Mapped k \<and> k \<noteq> []"
  proof -
    fix v assume "v \<in> set U"
    then obtain k where kv: "(k, v) \<in> set al" by (auto simp: U_def)
    with wf have "map_of al k = Some v" by (simp add: wfUnique_def)
    with wf show "\<exists>k. map_of al k = Some v \<and> kind v = Mapped k \<and> k \<noteq> []"
      by (auto dest: wfUnique_map_of)
  qed
  have kS: "keysOf S = []"
    by (rule keysOf_no_mapped)
      (auto dest!: S_kind simp: isStatic_def isMapped_def split: FieldKind.splits)
  have kC: "keysOf C = []"
    by (rule keysOf_no_mapped)
      (auto dest!: C_kind simp: isCalculated_def isMapped_def split: FieldKind.splits)
  have kU: "keysOf U = map fst al" unfolding U_def using wf by (rule keysOf_unique)
  have "distinct (keysOf (S @ C @ U))"
    using wf by (simp add: keysOf_append kS kC kU wfUnique_def)
  then have dX: "distinct (keysOf X)"
    unfolding X_def by (intro keysOf_filter_distinct)
  have frX: "\<And>f. f \<in> set X \<Longrightarrow> fieldReconciled ms fmt f"
  proof -
    fix f assume "f \<in> set X"
    then have km: "keepMapped ms f" and kc: "keepCalculated ms f" and mem: "f \<in> set S \<or> f \<in> set C \<or> f \<in> set U"
      by (auto simp: X_def)
    from mem show "fieldReconciled ms fmt f"
    proof (elim disjE)
      assume "f \<in> set S"
      from S_kind [OF this] show ?thesis
        by (auto simp: fieldReconciled_def isStatic_def split: FieldKind.splits)
    next
      assume "f \<in> set C"
      from C_kind [OF this] kc show ?thesis
        by (auto simp: fieldReconciled_def isCalculated_def split: FieldKind.splits)
    next
      assume "f \<in> set U"
      from U_mem [OF this] obtain k where k: "map_of al k = Some f" "kind f = Mapped k" "k \<noteq> []"
        by blast
      with km have h: "hasMapping ms k"
        by (simp add: keepMapped_def isStatic_def isCalculated_def)
      with k fx [OF k(1) h] show ?thesis by (simp add: fieldReconciled_def)
    qed
  qed
  have covX: "\<And>k. hasMapping ms k \<Longrightarrow> k \<noteq> [] \<Longrightarrow> k \<in> set (keysOf X)"
  proof -
    fix k assume h: "hasMapping ms k" and ne: "k \<noteq> []"
    from cov [OF h ne] obtain v where v: "map_of al k = Some v" by auto
    then have "(k, v) \<in> set al" by (rule map_of_SomeD)
    then have vU: "v \<in> set U" by (force simp: U_def)
    from wf v have kv: "kind v = Mapped k" by (auto dest: wfUnique_map_of)
    with h have "keepMapped ms v" "keepCalculated ms v"
      by (simp_all add: keepMapped_def keepCalculated_def)
    with vU have "v \<in> set X" by (simp add: X_def)
    moreover from kv have "isMapped v" "keyOf v = k" by (simp_all add: isMapped_def keyOf_def)
    ultimately show "k \<in> set (keysOf X)" by (force simp: keysOf_keyOf)
  qed
  have keys_set: "set (keysOf (renumber (sortByOrder X))) = set (keysOf X)"
    using mset_keysOf_sortByOrder [of X] by (simp add: keysOf_renumber) (metis mset_eq_setD)
  have "distinct (keysOf (renumber (sortByOrder X)))"
    using dX mset_keysOf_sortByOrder [of X]
    by (simp add: keysOf_renumber) (metis mset_eq_imp_distinct_iff)
  moreover have "denseOrder (renumber (sortByOrder X))" by (rule denseOrder_renumber)
  moreover have "list_all (fieldReconciled ms fmt) (renumber (sortByOrder X))"
    unfolding list_all_iff
  proof
    fix g assume "g \<in> set (renumber (sortByOrder X))"
    then obtain f i where "f \<in> set X" "g = f\<lparr>order_f := i\<rparr>"
      by (auto dest!: renumber_mem simp: set_sortByOrder)
    with frX show "fieldReconciled ms fmt g" by (simp add: fieldReconciled_order)
  qed
  moreover have "list_all (\<lambda>m. case mappedField m of None \<Rightarrow> True
                       | Some k \<Rightarrow> k = [] \<or> k \<in> set (keysOf (renumber (sortByOrder X)))) ms"
    unfolding list_all_iff keys_set
  proof
    fix m assume m: "m \<in> set ms"
    show "case mappedField m of None \<Rightarrow> True | Some k \<Rightarrow> k = [] \<or> k \<in> set (keysOf X)"
    proof (cases "mappedField m")
      case (Some k)
      with m have "hasMapping ms k" by (auto simp: hasMapping_def list_ex_iff)
      with covX [of k] Some show ?thesis by auto
    qed simp
  qed
  ultimately show ?thesis by (simp add: schemaReconciled_def R)
qed

text \<open>
  Claim C6.  Schema reconciliation is idempotent: for every column-mapping table, output
  format and output schema, running the reconciliation effect a second time with the same
  mappings and format (whatever the clock then reads) leaves the schema produced by the first
  run unchanged, field for field.
\<close>

theorem C6_reconcile_idempotent:
  "reconcileEffect stamp' ms n p (reconcileEffect stamp ms n p cfg) = reconcileEffect stamp ms n p cfg"
proof -
  have idem: "reconcile stamp' ms (reconcile stamp ms cfg) = reconcile stamp ms cfg"
    using reconcileFields_fixpoint [OF reconcileFields_reconciled, of stamp' ms "format_c cfg" stamp "fields_c cfg"]
    by (simp add: reconcile_def)
  have fmt: "format_c (reconcile stamp ms cfg) = format_c cfg" by (simp add: reconcile_def)
  show ?thesis
  proof (cases "ms = [] \<and> n = 0
         \<and> list_all (\<lambda>f. \<not> isStatic f \<and> \<not> isCalculated f) (fields_c cfg)
         \<and> fields_c cfg = []")
    case True
    then show ?thesis by (simp add: reconcileEffect_def)
  next
    case g1: False
    show ?thesis
    proof (cases "p \<noteq> ''custom'' \<and> format_c cfg = TXT")
      case True
      then show ?thesis by (simp add: reconcileEffect_def)
    next
      case g2: False
      have e: "reconcileEffect stamp ms n p cfg = reconcile stamp ms cfg"
        unfolding reconcileEffect_def by (simp only: if_not_P [OF g1] if_not_P [OF g2])
      have g2': "\<not> (p \<noteq> ''custom'' \<and> format_c (reconcile stamp ms cfg) = TXT)"
        unfolding fmt by (rule g2)
      have "reconcileEffect stamp' ms n p (reconcile stamp ms cfg) = reconcile stamp ms cfg"
      proof (cases "ms = [] \<and> n = 0
         \<and> list_all (\<lambda>f. \<not> isStatic f \<and> \<not> isCalculated f) (fields_c (reconcile stamp ms cfg))
         \<and> fields_c (reconcile stamp ms cfg) = []")
        case True
        show ?thesis unfolding reconcileEffect_def by (simp only: if_P [OF True])
      next
        case False
        show ?thesis
          unfolding reconcileEffect_def
          by (simp only: if_not_P [OF False] if_not_P [OF g2'] idem)
      qed
      with e show ?thesis by simp
    qed
  qed
qed


theorem C6_reconcile_idempotent_witness:
  "reconcileEffect laterStamp [cpfMapping, nomeMapping] 2 ''custom''
     (reconcileEffect exampleStamp [cpfMapping, nomeMapping] 2 ''custom'' exampleConfig)
   = reconcileEffect exampleStamp [cpfMapping, nomeMapping] 2 ''custom'' exampleConfig"
  by (rule C6_reconcile_idempotent)

lemma reconcile_example:
  "map id_f (fields_c (reconcileEffect exampleStamp [cpfMapping, nomeMapping] 2 ''custom'' exampleConfig))
   = [''mapped-nome-1'', ''calc-periodo-1'', ''mapped-cpf-1700000000000'']"
  by code_simp

section \<open>Properties of the numeric coercion\<close>

lemma isDigit_digitChar: "d < 10 \<Longrightarrow> isDigit (digitChar d)"
proof -
  assume "d < 10"
  then have "nat d < length ''0123456789''" by simp
  then have "''0123456789'' ! nat d \<in> set ''0123456789''" by (rule nth_mem)
  then show ?thesis by (simp only: isDigit_def digitChar_def)
qed

lemma showNat_digits: "showNat n \<noteq> [] \<and> list_all isDigit (showNat n)"
proof (induction n rule: showNat.induct)
  case (1 n)
  show ?case
  proof (cases "n < 10")
    case True
    then show ?thesis by (simp add: showNat.simps [of n] isDigit_digitChar)
  next
    case False
    have "n mod 10 < 10" by simp
    then have "isDigit (digitChar (n mod 10))" by (rule isDigit_digitChar)
    with False 1 show ?thesis by (simp add: showNat.simps [of n])
  qed
qed

lemma not_isDigit_dot: "\<not> isDigit (CHR ''.'')"
  by (simp add: isDigit_def)

lemma not_isDigit_minus: "\<not> isDigit (CHR ''-'')"
  by (simp add: isDigit_def)

lemma matchesTwoDecimals_shape:
  assumes "a \<noteq> []" and "list_all isDigit a" and "isDigit d1" and "isDigit d2"
    and "sg = '''' \<or> sg = ''-''"
  shows "matchesTwoDecimals (sg @ a @ ''.'' @ [d1, d2])"
proof -
  from assms(1,2) obtain x xs where a: "a = x # xs" and x: "isDigit x"
    by (cases a) auto
  then have xm: "x \<noteq> CHR ''-''" using not_isDigit_minus by auto
  have strip: "stripMinus (sg @ a @ ''.'' @ [d1, d2]) = a @ ''.'' @ [d1, d2]"
    using assms(5) xm by (auto simp: stripMinus_def startsWithMinus_def a)
  have tw: "takeWhile isDigit (a @ ''.'' @ [d1, d2]) = a"
    using assms(2) not_isDigit_dot by (simp add: takeWhile_append2 list_all_iff)
  have dw: "dropWhile isDigit (a @ ''.'' @ [d1, d2]) = ''.'' @ [d1, d2]"
    using assms(2) not_isDigit_dot by (simp add: dropWhile_append2 list_all_iff)
  show ?thesis
    unfolding matchesTwoDecimals_def strip Let_def tw dw
    using assms(1,3,4) by simp
qed

lemma toFixed2_shape:
  assumes "below1e21 m e"
  shows "matchesTwoDecimals (toFixed2 (Finite neg m e))"
proof -
  define ds where "ds = showNat (hundredths m e)"
  define ds' where "ds' = (if length ds \<le> 2 then replicate (3 - length ds) (CHR ''0'') @ ds else ds)"
  define sg where "sg = (if neg \<and> m > 0 then ''-'' else '''')"
  have d: "ds \<noteq> []" "list_all isDigit ds"
    using showNat_digits [of "hundredths m e"] by (simp_all add: ds_def)
  have z: "isDigit (CHR ''0'')" by (simp add: isDigit_def)
  have all': "list_all isDigit ds'" using d z by (simp add: ds'_def list_all_iff)
  have len: "3 \<le> length ds'" using d by (cases ds) (auto simp: ds'_def)
  define a where "a = take (length ds' - 2) ds'"
  define b where "b = drop (length ds' - 2) ds'"
  have "length b = 2" using len by (simp add: b_def)
  then obtain d1 d2 where b: "b = [d1, d2]"
    by (cases b; cases "tl b") auto
  have "set b \<subseteq> set ds'" by (simp add: b_def set_drop_subset)
  with all' b have dd: "isDigit d1" "isDigit d2" by (auto simp: list_all_iff)
  have "set a \<subseteq> set ds'" by (simp add: a_def set_take_subset)
  with all' have aa: "list_all isDigit a" by (auto simp: list_all_iff)
  have an: "a \<noteq> []" using len by (auto simp: a_def)
  have "toFixed2 (Finite neg m e) = sg @ a @ ''.'' @ b"
    using assms by (simp add: toFixed2_def Let_def sg_def a_def b_def ds'_def ds_def)
  moreover have "matchesTwoDecimals (sg @ a @ ''.'' @ [d1, d2])"
    using an aa dd by (rule matchesTwoDecimals_shape) (simp add: sg_def)
  ultimately show ?thesis by (simp add: b)
qed

lemma matchesTwoDecimals_zero: "matchesTwoDecimals ''0.00''"
  by (simp add: matchesTwoDecimals_def stripMinus_def startsWithMinus_def isDigit_def)

text \<open>
  Claim C2, as amended.  A cell coerced under the \<^verbatim>\<open>Numerico\<close> type resolves to
  \<^verbatim>\<open>0.00\<close> when no numeric prefix is found, and otherwise to the parsed Number in
  \<^verbatim>\<open>toFixed(2)\<close> notation, which matches \<^verbatim>\<open>^-?\d+\.\d{2}$\<close> whenever the
  parsed Number is finite and below \<open>10\<^sup>2\<^sup>1\<close> in magnitude.
\<close>

theorem C2_numeric_two_decimals:
  "(numericMatch (cleanNumeric rm v) = None \<longrightarrow> coerceNumerico rm v = ''0.00'')
   \<and> (\<forall>t neg m e. numericMatch (cleanNumeric rm v) = Some t \<longrightarrow> parseFloat t = Finite neg m e
          \<longrightarrow> below1e21 m e
          \<longrightarrow> coerceNumerico rm v = toFixed2 (Finite neg m e)
              \<and> matchesTwoDecimals (coerceNumerico rm v))"
  by (auto simp: coerceNumerico_def toFixed2_shape)

lemma mappedCellValue_Numerico:
  assumes "dataType mapping = Some Numerico"
  shows "fst (mappedCellValue parse mapping dfo raw)
         = coerceNumerico (removeMask mapping)
             (if removeMask mapping \<and> trim raw \<noteq> [] then digitsOnly (trim raw) else trim raw)"
  using assms by (simp add: mappedCellValue_def Let_def removeMaskHelper_def)

theorem C2_numeric_two_decimals_witness:
  "numericMatch (cleanNumeric False ''R$ 1.234,56'') = Some ''1234.56''
   \<and> parseFloat ''1234.56'' = Finite False 5429652300748554 (- 42)
   \<and> below1e21 5429652300748554 (- 42)
   \<and> coerceNumerico False ''R$ 1.234,56'' = ''1234.56''
   \<and> matchesTwoDecimals (coerceNumerico False ''R$ 1.234,56'')"
proof -
  have a: "numericMatch (cleanNumeric False ''R$ 1.234,56'') = Some ''1234.56''" by code_simp
  have b: "parseFloat ''1234.56'' = Finite False 5429652300748554 (- 42)" by code_simp
  have c: "below1e21 5429652300748554 (- 42)" by code_simp
  have d: "coerceNumerico False ''R$ 1.234,56'' = ''1234.56''" by code_simp
  from C2_numeric_two_decimals [of False "''R$ 1.234,56''"] a b c
  have "matchesTwoDecimals (coerceNumerico False ''R$ 1.234,56'')" by blast
  with a b c d show ?thesis by simp
qed

text \<open>The claim as stated fails for a cell of 22 digits: the parsed Number is
  \<open>10\<^sup>2\<^sup>1\<close>, which \<^verbatim>\<open>toFixed\<close> writes in exponent notation.\<close>

theorem C2_counterexample:
  "fst (mappedCellValue sampleParse valorMapping None ''1000000000000000000000'') = ''1e+21''
   \<and> \<not> matchesTwoDecimals ''1e+21''"
  by code_simp

section \<open>Properties of the situation code\<close>

subsection \<open>When a decimal is read as a positive Number\<close>

lemma bitLength_bounds:
  "0 < n \<Longrightarrow> 2 ^ (bitLength n - 1) \<le> n \<and> n < 2 ^ bitLength n"
proof (induction "nat n" arbitrary: n rule: less_induct)
  case less
  show ?case
  proof (cases "n = 1")
    case True
    have "bitLength 1 = 1"
      by (simp add: bitLength.simps [of 1] bitLength.simps [of 0])
    then show ?thesis using True by simp
  next
    case False
    define m where "m = n div 2"
    have m: "0 < m" "nat m < nat n" using less.prems False by (auto simp: m_def)
    have ih: "2 ^ (bitLength m - 1) \<le> m" "m < 2 ^ bitLength m"
      using less.hyps [OF m(2) m(1)] by auto
    have bl: "bitLength n = Suc (bitLength m)"
      using less.prems by (simp add: bitLength.simps [of n] m_def)
    have pos: "0 < bitLength m"
      using m(1) by (simp add: bitLength.simps [of m])
    define x :: int where "x = 2 ^ (bitLength m - 1)"
    have a: "2 ^ bitLength m = 2 * x"
      using pos unfolding x_def by (cases "bitLength m") simp_all
    have b: "2 ^ (bitLength n - 1) = 2 * x" "2 ^ bitLength n = 2 * (2 * x)"
      using a by (simp_all add: bl)
    have c: "2 * m \<le> n" "n < 2 * m + 2" by (simp_all add: m_def)
    have d: "x \<le> m" "m < 2 * x" using ih a by (simp_all add: x_def)
    show ?thesis unfolding b using c d by linarith
  qed
qed

lemma roundHalfEven_zero:
  assumes "0 \<le> a" "0 < b"
  shows "roundHalfEven a b = 0 \<longleftrightarrow> 2 * a \<le> b"
proof
  assume h: "2 * a \<le> b"
  then have "a < b" using assms by auto
  then have "a div b = 0" "a mod b = a" using assms by auto
  then show "roundHalfEven a b = 0" using h by (auto simp: roundHalfEven_def Let_def)
next
  assume h: "roundHalfEven a b = 0"
  have q: "0 \<le> a div b" using assms by (simp add: pos_imp_zdiv_nonneg_iff)
  from h q have z: "a div b = 0" and r: "\<not> 2 * (a mod b) > b"
    by (auto simp: roundHalfEven_def Let_def split: if_splits)
  from z have "a mod b = a" using div_mult_mod_eq [of a b] by simp
  with r show "2 * a \<le> b" by simp
qed

lemma roundHalfEven_nonneg: "0 \<le> a \<Longrightarrow> 0 < b \<Longrightarrow> 0 \<le> roundHalfEven a b"
  by (auto simp: roundHalfEven_def Let_def pos_imp_zdiv_nonneg_iff)

lemma powi_neg: "\<not> 0 \<le> e \<Longrightarrow> (2::real) powi e = 1 / 2 ^ nat (- e)"
  by (simp add: power_int_def power_one_over)

lemma scaled_zero:
  assumes "0 \<le> p" "0 < q"
  shows "scaled p q e = 0 \<longleftrightarrow> 2 * real_of_int p \<le> real_of_int q * 2 powi e"
proof (cases "0 \<le> e")
  case True
  have "scaled p q e = 0 \<longleftrightarrow> 2 * p \<le> q * 2 ^ nat e"
    using True assms by (simp add: scaled_def roundHalfEven_zero)
  also have "\<dots> \<longleftrightarrow> real_of_int (2 * p) \<le> real_of_int (q * 2 ^ nat e)"
    by (simp only: of_int_le_iff)
  also have "\<dots> \<longleftrightarrow> 2 * real_of_int p \<le> real_of_int q * 2 powi e"
    using True by (simp add: power_int_def)
  finally show ?thesis .
next
  case False
  define k where "k = nat (- e)"
  have e: "2 powi e = 1 / ((2::real) ^ k)" using False by (simp add: powi_neg k_def)
  have "scaled p q e = 0 \<longleftrightarrow> 2 * (p * 2 ^ k) \<le> q"
    using False assms by (simp add: scaled_def roundHalfEven_zero k_def)
  also have "\<dots> \<longleftrightarrow> real_of_int (2 * (p * 2 ^ k)) \<le> real_of_int q"
    by (simp only: of_int_le_iff)
  also have "\<dots> \<longleftrightarrow> 2 * real_of_int p \<le> real_of_int q * 2 powi e"
    unfolding e by (simp add: pos_le_divide_eq mult_ac)
  finally show ?thesis .
qed

lemma scaled_nonneg: "0 \<le> p \<Longrightarrow> 0 < q \<Longrightarrow> 0 \<le> scaled p q e"
  by (simp add: scaled_def roundHalfEven_nonneg)

lemma atLeastPow2_real:
  "atLeastPow2 p q b \<longleftrightarrow> real_of_int q * 2 powi b \<le> real_of_int p"
proof (cases "0 \<le> b")
  case True
  have "atLeastPow2 p q b \<longleftrightarrow> real_of_int (q * 2 ^ nat b) \<le> real_of_int p"
    using True by (simp only: atLeastPow2_def if_True of_int_le_iff)
  then show ?thesis using True by (simp add: power_int_def)
next
  case False
  define k where "k = nat (- b)"
  have e: "2 powi b = 1 / ((2::real) ^ k)" using False by (simp add: powi_neg k_def)
  have "atLeastPow2 p q b \<longleftrightarrow> real_of_int q \<le> real_of_int (p * 2 ^ k)"
    using False by (simp only: atLeastPow2_def if_False of_int_le_iff k_def)
  then show ?thesis unfolding e by (simp add: pos_divide_le_eq mult_ac)
qed




lemma bitLength_real:
  assumes "0 < n"
  shows "2 powi (int (bitLength n) - 1) \<le> real_of_int n" "real_of_int n < 2 powi int (bitLength n)"
proof -
  obtain k where k: "bitLength n = Suc k"
    using assms by (simp add: bitLength.simps [of n])
  have "real_of_int (2 ^ k) \<le> real_of_int n"
    using bitLength_bounds [OF assms] unfolding k by (simp only: of_int_le_iff diff_Suc_1)
  then show "2 powi (int (bitLength n) - 1) \<le> real_of_int n"
    unfolding k by simp
  have "real_of_int n < real_of_int (2 ^ bitLength n)"
    using bitLength_bounds [OF assms] by (simp only: of_int_less_iff)
  then show "real_of_int n < 2 powi int (bitLength n)"
    by simp
qed

lemma powi_double: "(2::real) powi (x + 1) = 2 * 2 powi x"
  by (simp add: power_int_add)

lemma below_pow2_real:
  "q < p * 2 ^ k \<longleftrightarrow> real_of_int q * 2 powi (- int k) < real_of_int p"
proof -
  define K :: real where "K = 2 ^ k"
  have K: "0 < K" by (simp add: K_def)
  have a: "(2::real) powi (- int k) = inverse K"
    by (simp add: power_int_minus K_def)
  have b: "real_of_int (p * 2 ^ k) = real_of_int p * K"
    by (simp add: K_def)
  have c: "real_of_int q * inverse K = real_of_int q / K"
    by (simp add: divide_inverse)
  have "q < p * 2 ^ k \<longleftrightarrow> real_of_int q < real_of_int (p * 2 ^ k)"
    by (simp only: of_int_less_iff)
  also have "\<dots> \<longleftrightarrow> real_of_int q / K < real_of_int p"
    unfolding b by (simp only: pos_divide_less_eq [OF K])
  finally show ?thesis unfolding a c .
qed



lemma toDouble_positive:
  assumes p: "0 \<le> p" and q: "0 < q"
  shows "jsPositive (toDouble neg p q) \<longleftrightarrow> \<not> neg \<and> q < p * 2 ^ 1075"
proof (cases "p = 0")
  case True
  then show ?thesis using q by (simp add: toDouble_def jsPositive_def)
next
  case False
  then have pp: "0 < p" using p by simp
  define b where "b = int (bitLength p) - int (bitLength q)"
  define t where "t = (if atLeastPow2 p q b then b else b - 1)"
  define e where "e = max (t - 52) (- 1074)"
  define m where "m = scaled p q e"
  define P where "P = real_of_int p"
  define Q where "Q = real_of_int q"
  define E :: int where "E = - 1074"
  have E1: "E - 1 = - int 1075" by (simp add: E_def)
  have PQ: "0 < P" "0 < Q" using pp q by (simp_all add: P_def Q_def)
  have mnn: "0 \<le> m" unfolding m_def by (rule scaled_nonneg [OF p q])
  have res: "jsPositive (toDouble neg p q) \<longleftrightarrow> \<not> neg \<and> (m \<noteq> 0 \<or> 971 < e)"
    using False mnn
    by (auto simp: toDouble_def Let_def jsPositive_def b_def [symmetric] t_def [symmetric]
        e_def [symmetric] m_def [symmetric])
  have m0: "m = 0 \<longleftrightarrow> 2 * P \<le> Q * 2 powi e"
    unfolding m_def P_def Q_def by (rule scaled_zero [OF p q])
  have lo: "Q * 2 powi t \<le> P"
  proof (cases "atLeastPow2 p q b")
    case True
    then show ?thesis by (simp add: t_def atLeastPow2_real P_def Q_def)
  next
    case False
    then have t: "t = b - 1" by (simp add: t_def)
    have s: "int (bitLength q) + t = int (bitLength p) - 1"
      by (simp add: t b_def)
    have qb: "Q \<le> 2 powi int (bitLength q)"
      unfolding Q_def by (rule less_imp_le [OF bitLength_real(2) [OF q]])
    have "Q * 2 powi t \<le> 2 powi int (bitLength q) * 2 powi t"
      by (rule mult_right_mono [OF qb]) simp
    also have "\<dots> = 2 powi (int (bitLength q) + t)"
      by (rule power_int_add [symmetric]) simp
    also have "\<dots> \<le> P"
      unfolding s P_def by (rule bitLength_real(1) [OF pp])
    finally show ?thesis .
  qed
  have thr: "q < p * 2 ^ 1075 \<longleftrightarrow> Q * 2 powi (E - 1) < P"
    unfolding E1 P_def Q_def by (rule below_pow2_real)
  show ?thesis
  proof (cases "t - 52 \<le> - 1074")
    case True
    then have e: "e = E" by (simp add: e_def E_def)
    have "(2::real) powi E = 2 * 2 powi (E - 1)"
      using powi_double [of "E - 1"] by simp
    then have "2 * P \<le> Q * 2 powi E \<longleftrightarrow> P \<le> Q * 2 powi (E - 1)"
      by simp
    then have "m \<noteq> 0 \<longleftrightarrow> q < p * 2 ^ 1075"
      unfolding thr m0 e by auto
    moreover have "\<not> 971 < e" by (simp add: e E_def)
    ultimately show ?thesis unfolding res by simp
  next
    case False
    then have e: "e = t - 52" by (simp add: e_def)
    have lt: "E - 1 < t" using False by (simp add: E_def)
    have "(2::real) powi e \<le> 2 powi t"
      by (rule power_int_increasing) (simp_all add: e)
    then have "Q * 2 powi e \<le> Q * 2 powi t" using PQ by simp
    then have a: "\<not> 2 * P \<le> Q * 2 powi e" using lo PQ by linarith
    have "(2::real) powi (E - 1) < 2 powi t"
      by (rule power_int_strict_increasing [OF lt]) simp
    then have "Q * 2 powi (E - 1) < Q * 2 powi t" using PQ by simp
    then have b: "Q * 2 powi (E - 1) < P" using lo by linarith
    show ?thesis unfolding res thr m0 using a b by simp
  qed
qed



lemma digitsToInt_foldl:
  "foldl (\<lambda>a c. 10 * a + digitValue c) a ds = a * 10 ^ length ds + spec_digits ds"
  by (induction ds arbitrary: a) (simp_all add: digitValue_def algebra_simps)

lemma digitsToInt_spec: "digitsToInt ds = spec_digits ds"
  by (simp add: digitsToInt_def digitsToInt_foldl)
lemma isDigit_value: "isDigit c \<Longrightarrow> (48::int) \<le> of_char c"
  by (auto simp: isDigit_def)
lemma spec_digits_nonneg: "\<forall>c\<in>set ds. isDigit c \<Longrightarrow> 0 \<le> spec_digits ds"
  by (induction ds) (auto intro!: add_nonneg_nonneg mult_nonneg_nonneg simp: isDigit_value)

subsection \<open>What \<^verbatim>\<open>parseFloat\<close> reads in a cleaned cell\<close>

lemma cleanValorRealizado_spec:
  "cleanValorRealizado raw = spec_decimalPoint (spec_stripNoise raw)"
proof -
  have f: "filter (\<lambda>c. isDigit c \<or> c = CHR ''.'' \<or> c = CHR '','' \<or> c = CHR ''-'') raw
           = spec_stripNoise raw"
    unfolding spec_stripNoise_def
    by (rule filter_cong) (auto simp: isDigit_def spec_amountChar_def)
  show ?thesis
    unfolding cleanValorRealizado_def f spec_decimalPoint_def by (rule replaceFirst_split)
qed

lemma amountChar_point: "spec_amountChar (CHR ''.'')"
  by (simp add: spec_amountChar_def)

lemma amountChar_clean: "\<forall>c\<in>set (spec_decimalPoint (spec_stripNoise raw)). spec_amountChar c"
proof -
  define s where "s = spec_stripNoise raw"
  have a: "\<forall>c\<in>set s. spec_amountChar c"
    by (simp add: s_def spec_stripNoise_def)
  have "set (spec_decimalPoint s) \<subseteq> set s \<union> {CHR ''.''}"
  proof (cases "dropWhile (\<lambda>c. c \<noteq> CHR '','') s")
    case Nil
    show ?thesis unfolding spec_decimalPoint_def Nil by auto
  next
    case (Cons x rest)
    have "set (takeWhile (\<lambda>c. c \<noteq> CHR '','') s) \<subseteq> set s"
      using set_takeWhileD by fast
    moreover have "set rest \<subseteq> set s"
      using set_dropWhileD [of _ "\<lambda>c. c \<noteq> CHR '',''" s] Cons by auto
    ultimately show ?thesis unfolding spec_decimalPoint_def Cons by auto
  qed
  then show ?thesis using a amountChar_point unfolding s_def by blast
qed

lemma amountChar_other:
  assumes "spec_amountChar c"
  shows "\<not> isWhiteSpace c" "c \<noteq> CHR ''+''" "c \<noteq> CHR ''I''" "c \<noteq> CHR ''e''" "c \<noteq> CHR ''E''"
  using assms by (auto simp: spec_amountChar_def isWhiteSpace_def)

lemma exponentOf_amount: "\<forall>c\<in>set s. spec_amountChar c \<Longrightarrow> exponentOf s = 0"
  by (cases s) (simp_all add: exponentOf_def amountChar_other)

lemma startsWith_Infinity: "\<forall>c\<in>set s. spec_amountChar c \<Longrightarrow> \<not> startsWith s ''Infinity''"
  by (cases s) (simp_all add: amountChar_other)

lemma decimalNumber_fraction: "decimalNumber neg n (0 - int k) = toDouble neg n (10 ^ k)"
proof (cases "k = 0")
  case True
  then show ?thesis by (simp add: decimalNumber_def)
next
  case False
  then have a: "\<not> 0 \<le> 0 - int k" "nat (- (0 - int k)) = k" by simp_all
  show ?thesis by (simp only: decimalNumber_def a if_False)
qed

lemma fraction_eq:
  "(case r1 of [] \<Rightarrow> [] | c # r \<Rightarrow> if c = CHR ''.'' then takeWhile isDigit r else [])
   = (if take 1 r1 = ''.'' then takeWhile isDigit (drop 1 r1) else [])"
  by (cases r1) simp_all

lemma parseFloat_unsigned:
  assumes "\<forall>c\<in>set u. spec_amountChar c"
  shows "(if startsWith u ''Infinity'' then Infinity neg
          else
           (let ip = takeWhile isDigit u;
                r1 = dropWhile isDigit u;
                fp = (case r1 of [] \<Rightarrow> []
                      | c # r \<Rightarrow> if c = CHR ''.'' then takeWhile isDigit r else []);
                r2 = (case r1 of [] \<Rightarrow> []
                      | c # r \<Rightarrow> if c = CHR ''.'' then dropWhile isDigit r else r1)
            in if ip = [] \<and> fp = [] then NaN
               else decimalNumber neg (digitsToInt (ip @ fp))
                      (exponentOf r2 - int (length fp))))
         = (let whole = takeWhile isDigit u;
                rest = dropWhile isDigit u;
                fraction = (if take 1 rest = ''.'' then takeWhile isDigit (drop 1 rest) else [])
            in if whole = [] \<and> fraction = [] then NaN
               else toDouble neg (spec_digits (whole @ fraction)) (10 ^ length fraction))"
proof -
  define r1 where "r1 = dropWhile isDigit u"
  define r2 where "r2 = (case r1 of [] \<Rightarrow> []
                      | c # r \<Rightarrow> if c = CHR ''.'' then dropWhile isDigit r else r1)"
  have s1: "set r1 \<subseteq> set u" unfolding r1_def using set_dropWhileD by fast
  have "set r2 \<subseteq> set r1"
  proof (cases r1)
    case Nil
    then show ?thesis by (simp add: r2_def)
  next
    case (Cons c r)
    have "set (dropWhile isDigit r) \<subseteq> set r" using set_dropWhileD by fast
    then show ?thesis unfolding r2_def Cons by auto
  qed
  with s1 assms have "\<forall>c\<in>set r2. spec_amountChar c" by blast
  then have e: "exponentOf r2 = 0" by (rule exponentOf_amount)
  have i: "\<not> startsWith u ''Infinity''" using assms by (rule startsWith_Infinity)
  show ?thesis
    unfolding Let_def r1_def [symmetric] r2_def [symmetric] e fraction_eq
      decimalNumber_fraction digitsToInt_spec if_not_P [OF i] ..
qed


lemma isDigit_eta: "(\<lambda>c. c \<in> set ''0123456789'') = isDigit"
  by (rule ext) (simp only: isDigit_def)

lemma parseFloat_amount:
  assumes "\<forall>c\<in>set s. spec_amountChar c"
  shows "parseFloat s =
           (case spec_leadingDecimal s of
              (negative, whole, fraction) \<Rightarrow>
                if whole = [] \<and> fraction = [] then NaN
                else toDouble negative (spec_digits (whole @ fraction)) (10 ^ length fraction))"
proof -
  have nw: "dropWhile isWhiteSpace s = s"
    using assms by (cases s) (simp_all add: amountChar_other(1))
  show ?thesis
  proof (cases "take 1 s = ''-''")
    case True
    then obtain r where s: "s = CHR ''-'' # r" by (cases s) auto
    have sg: "signOf s = (True, r)" by (simp add: s signOf_def)
    have am: "\<forall>c\<in>set r. spec_amountChar c" using assms by (simp add: s)
    have bd: "drop 1 s = r" by (simp add: s)
    show ?thesis
      unfolding parseFloat_def nw sg spec_leadingDecimal_def isDigit_eta True
      using parseFloat_unsigned [OF am, of True]
      by (simp only: Let_def prod.case bd simp_thms if_True)
  next
    case False
    have sg: "signOf s = (False, s)"
    proof (cases s)
      case Nil
      then show ?thesis by (simp add: signOf_def)
    next
      case (Cons c r)
      then have "c \<noteq> CHR ''-''" "c \<noteq> CHR ''+''"
        using False assms amountChar_other(2) [of c] by auto
      then show ?thesis by (simp add: Cons signOf_def)
    qed
    show ?thesis
      unfolding parseFloat_def nw sg spec_leadingDecimal_def isDigit_eta
      using parseFloat_unsigned [OF assms, of False] False
      by (simp only: Let_def prod.case simp_thms if_False)
  qed
qed

lemma situacao_exact:
  assumes "findMapping ms fid = Some vm"
  shows "calculateSituacaoRetorno ms (fid # others) r
         = (if spec_strictlyPositive
                 (spec_decimalPoint (spec_stripNoise (orElse (rowGet r (originalHeader vm)) ''0'')))
            then ''T'' else ''R'')"
proof -
  define s where "s = spec_decimalPoint (spec_stripNoise (orElse (rowGet r (originalHeader vm)) ''0''))"
  obtain negative whole fraction where ld: "spec_leadingDecimal s = (negative, whole, fraction)"
    by (cases "spec_leadingDecimal s") auto
  have wd: "\<forall>c\<in>set (whole @ fraction). isDigit c"
  proof -
    have "\<forall>c\<in>set (takeWhile isDigit xs). isDigit c" for xs
      using set_takeWhileD by fast
    then show ?thesis
      using ld unfolding spec_leadingDecimal_def isDigit_eta Let_def
      by (auto split: if_splits)
  qed
  define n where "n = spec_digits (whole @ fraction)"
  have n: "0 \<le> n" unfolding n_def using wd by (rule spec_digits_nonneg)
  have q: "(0::int) < 10 ^ length fraction" by simp
  have pf: "parseFloat s = (if whole = [] \<and> fraction = [] then NaN
                            else toDouble negative n (10 ^ length fraction))"
    unfolding s_def n_def
    using parseFloat_amount [OF amountChar_clean] ld [unfolded s_def] by simp
  have "(parseFloat s \<noteq> NaN \<and> jsPositive (parseFloat s))
        \<longleftrightarrow> \<not> negative \<and> 10 ^ length fraction < n * 2 ^ 1075"
  proof (cases "whole = [] \<and> fraction = []")
    case True
    then show ?thesis by (simp add: pf n_def)
  next
    case False
    have "jsPositive x \<Longrightarrow> x \<noteq> NaN" for x by (auto simp: jsPositive_def)
    then have "(parseFloat s \<noteq> NaN \<and> jsPositive (parseFloat s)) = jsPositive (parseFloat s)"
      by blast
    also have "\<dots> = jsPositive (toDouble negative n (10 ^ length fraction))"
      using False by (simp only: pf if_False)
    also have "\<dots> \<longleftrightarrow> \<not> negative \<and> 10 ^ length fraction < n * 2 ^ 1075"
      by (rule toDouble_positive [OF n q])
    finally show ?thesis .
  qed
  then have "(parseFloat s \<noteq> NaN \<and> jsPositive (parseFloat s)) = spec_strictlyPositive s"
    by (simp only: spec_strictlyPositive_def ld prod.case n_def)
  then show ?thesis
    using assms
    by (simp only: calculateSituacaoRetorno_def list.case Let_def option.case
        cleanValorRealizado_spec s_def [symmetric])
qed


lemma spec_strictlyPositive_plain:
  assumes "spec_leadingDecimal s = (negative, whole, fraction)" and "length fraction \<le> 323"
  shows "spec_strictlyPositive s \<longleftrightarrow> \<not> negative \<and> 0 < spec_digits (whole @ fraction)"
proof -
  define n where "n = spec_digits (whole @ fraction)"
  have "(10::int) ^ length fraction \<le> 10 ^ 323"
    using assms(2) by (rule power_increasing) simp
  also have "(10::int) ^ 323 < 2 ^ 1075" by simp
  finally have small: "(10::int) ^ length fraction < 2 ^ 1075" .
  have "10 ^ length fraction < n * 2 ^ 1075 \<longleftrightarrow> 0 < n"
  proof
    assume h: "10 ^ length fraction < n * 2 ^ 1075"
    have "(0::int) < 10 ^ length fraction" by simp
    with h have "0 < n * 2 ^ 1075" by linarith
    then show "0 < n" by (simp add: zero_less_mult_iff)
  next
    assume "0 < n"
    then have "(1::int) * 2 ^ 1075 \<le> n * 2 ^ 1075"
      by (intro mult_right_mono) simp_all
    with small show "10 ^ length fraction < n * 2 ^ 1075" by linarith
  qed
  then show ?thesis
    by (simp only: spec_strictlyPositive_def assms(1) prod.case n_def)
qed


text \<open>For a leading decimal with at most 323 digits after the point, strictly positive
  means: no minus sign, and a digit other than 0.\<close>

lemma situacao_plain_amount:
  assumes "findMapping ms fid = Some vm"
    and "spec_leadingDecimal
           (spec_decimalPoint (spec_stripNoise (orElse (rowGet r (originalHeader vm)) ''0'')))
         = (negative, whole, fraction)"
    and "length fraction \<le> 323"
  shows "calculateSituacaoRetorno ms (fid # others) r
         = (if \<not> negative \<and> 0 < spec_digits (whole @ fraction) then ''T'' else ''R'')"
  unfolding situacao_exact [OF assms(1)] spec_strictlyPositive_plain [OF assms(2, 3)] ..

lemma situacao_examples:
  "calculateFieldValue sampleParse sampleToday [valorMapping] situacaoField
     [''VALOR'' \<mapsto> ''150.00''] = ''T''"
  "calculateFieldValue sampleParse sampleToday [valorMapping] situacaoField
     [''VALOR'' \<mapsto> ''0''] = ''R''"
  "calculateFieldValue sampleParse sampleToday [valorMapping] situacaoField
     [''VALOR'' \<mapsto> ''-150.00''] = ''R''"
  "calculateFieldValue sampleParse sampleToday [valorMapping] situacaoField
     [''VALOR'' \<mapsto> ''sem valor''] = ''R''"
  "calculateFieldValue sampleParse sampleToday [valorMapping] situacaoField
     [''VALOR'' \<mapsto> ''R$ 1.234,56''] = ''T''"
  "calculateFieldValue sampleParse sampleToday [valorMapping] situacaoField Map.empty = ''R''"
  by code_simp+



section \<open>Properties of the date coercion and of the start date\<close>

lemma spec_firstValid_append:
  "spec_firstValid parse (xs @ ys)
   = (case spec_firstValid parse xs of NotFound \<Rightarrow> spec_firstValid parse ys | r \<Rightarrow> r)"
  by (induction parse xs rule: spec_firstValid.induct) (auto split: parsed.splits)

lemma spec_firstValid_same_text:
  "spec_firstValid parse (map (\<lambda>f. (s, f)) fs) = tryFormats parse s fs"
  by (induction fs) (auto split: parsed.splits)

lemma parseData_attempts:
  "parseData parse rm odf ds v = spec_firstValid parse (spec_dateAttempts odf ds (cleanedDate rm v))"
proof -
  have iso: "spec_firstValid parse [(take 10 ds, ''yyyy-MM-dd'')] = tryFormats parse (take 10 ds) [''yyyy-MM-dd'']"
    by (simp split: parsed.splits)
  show ?thesis
    unfolding parseData_def spec_dateAttempts_def Let_def spec_firstValid_append
      spec_firstValid_same_text
    by (cases "isoPrefix ds")
       (auto simp: spec_firstValid_same_text split: attempt.splits parsed.splits)
qed

text \<open>
  Claim C5, as amended.  The coercion of a \<^verbatim>\<open>Data\<close> cell always returns a value: it
  tries the ISO format first (when the trimmed cell starts like an ISO date), then the fixed
  list of common formats, then, when the cleaned value is all digits of length 6 or 8, the
  two compact orderings, the one that agrees with the field's output date format first.  The
  first valid date is rendered in the output date format; when no attempt succeeds the value
  is the empty string, and a warning is logged exactly when the value (trimmed, and with its
  mask removed when the mapping asks for it) is not empty.  An exception of the parser also
  gives the empty string.
\<close>

theorem C5_date_coercion:
  "coerceData parse rm dfo ds v =
     (let odf = orElse dfo DDMMYYYY
      in case spec_firstValid parse (spec_dateAttempts odf ds (cleanedDate rm v)) of
           Found d \<Rightarrow> (renderDate odf d, False)
         | NotFound \<Rightarrow> ('''', v \<noteq> [])
         | Raised \<Rightarrow> ('''', False))"
  by (simp add: coerceData_def Let_def parseData_attempts)

lemma mappedCellValue_Data:
  assumes "dataType mapping = Some Data"
  shows "mappedCellValue parse mapping dfo raw
         = coerceData parse (removeMask mapping) dfo (trim raw)
             (if removeMask mapping \<and> trim raw \<noteq> [] then digitsOnly (trim raw) else trim raw)"
  using assms by (simp add: mappedCellValue_def Let_def removeMaskHelper_def)

theorem C5_date_coercion_witness:
  "coerceData sampleParse False (Some YYYYMMDD) ''15/03/2024'' ''15/03/2024'' = (''20240315'', False)
   \<and> coerceData sampleParse False (Some DDMMYYYY) ''15.03.2024'' ''15.03.2024'' = ('''', True)"
  unfolding C5_date_coercion by code_simp

text \<open>The claim as stated fails for a masked cell without digits: every attempt fails, the
  value is empty, and no warning is logged.\<close>

theorem C5_counterexample:
  "spec_firstValid sampleParse (spec_dateAttempts DDMMYYYY ''abc'' (cleanedDate True '''')) = NotFound
   \<and> mappedCellValue sampleParse nascimentoMapping (Some DDMMYYYY) ''abc'' = ('''', False)"
  by code_simp

lemma parcelasPagasOf_ignores_sign:
  "parcelasPagasOf (Some (''-'' @ ds)) = parcelasPagasOf (Some ds)"
  by (simp add: parcelasPagasOf_def orElse_def removeMaskHelper_def digitsOnly_def isDigit_def)

text \<open>
  Claim C9 at a negative count.  With reference period 31/12/2024 the count \<^verbatim>\<open>-6\<close>
  gives the same start date as \<^verbatim>\<open>6\<close>, 30/06/2024, and not the reference period that
  a count coerced to 0 gives: the mask removal drops the sign before the script tests it.
\<close>

theorem C9_negative_count_is_subtracted:
  "calculateFieldValue sampleParse sampleToday [parcelasMapping] startDateField
     [''PARCELAS'' \<mapsto> ''-6''] = ''30062024''
   \<and> calculateFieldValue sampleParse sampleToday [parcelasMapping] startDateField
     [''PARCELAS'' \<mapsto> ''6''] = ''30062024''
   \<and> calculateFieldValue sampleParse sampleToday [parcelasMapping] startDateField
     [''PARCELAS'' \<mapsto> ''0''] = ''31122024''
   \<and> calculateFieldValue sampleParse sampleToday [parcelasMapping] startDateField
     [''PARCELAS'' \<mapsto> ''seis''] = ''31122024''"
  by code_simp

section \<open>Properties of the conversion\<close>

lemma outputLine_txt_length:
  assumes "list_all (\<lambda>f. 0 < orElse (length_f f) 0) fs"
  shows "int (length (outputLine parse today ms hasData TXT delim fs r))
         = sum_list (map (\<lambda>f. orElse (length_f f) 0) fs)"
  using assms
proof (induction fs)
  case Nil
  show ?case by (simp add: outputLine_def)
next
  case (Cons f fs)
  then obtain n where n: "length_f f = Some n" "0 < n"
    by (cases "length_f f") (auto simp: orElse_def)
  have "int (length (formatTxtField ms f (resolveValue parse today ms hasData f r))) = n"
    using n formatFixed_length [OF n(2) padCharOf_nonempty]
    by (simp add: formatTxtField_def)
  moreover have "int (length (outputLine parse today ms hasData TXT delim fs r))
         = sum_list (map (\<lambda>f. orElse (length_f f) 0) fs)"
    using Cons by simp
  ultimately show ?case using n by (simp add: outputLine_def orElse_def)
qed

text \<open>A row that lacks the column of a mapping gives the empty value, unless the header names
  a member of \<^verbatim>\<open>Object.prototype\<close>: then \<^verbatim>\<open>in\<close> finds it and its text is the value.\<close>

lemma resolveValue_missing_header:
  "resolveValue sampleParse sampleToday [nomeMapping] True nomeField Map.empty = []"
  "resolveValue sampleParse sampleToday [constructorMapping] True nomeField Map.empty
   = ''function Object() { [native code] }''"
  "resolveValue sampleParse sampleToday [constructorMapping] True nomeField
     [''constructor'' \<mapsto> ''Maria''] = ''Maria''"
  by code_simp+

text \<open>
  Claim C4 at a schema whose last field is padded with spaces.  Each line is built with its
  full length (5 here), but \<^verbatim>\<open>trimEnd()\<close> on the whole text removes the newline and
  the trailing padding of the last line, which is left with 2 characters.
\<close>

theorem C4_last_line_loses_padding:
  "validateConfig sampleParse [] [] obsConfig = None
   \<and> outputLine sampleParse sampleToday [] True TXT '''' (fields_c obsConfig) Map.empty = ''ab   ''
   \<and> convertFile sampleParse sampleToday [] [] [Map.empty] obsConfig = Inr ''ab''
   \<and> convertFile sampleParse sampleToday [] [] [Map.empty, Map.empty] obsConfig
       = Inr (''ab   '' @ [newline] @ ''ab'')"
  by code_simp

end
